theory Spec2Isabelle
  imports Complex_Main "HOL-Library.Sublist"
begin

section \<open>Shared vocabulary\<close>

text \<open>
  A \<open>pathlib.Path\<close> is modelled by its components below the filesystem root (the anchor is
  left out); non-ASCII folder names are written as their UTF-8 bytes. Python floats are
  modelled as reals, Python's unbounded integers as \<open>nat\<close>/\<open>int\<close>.
  Every call of \<open>log_callback(message, level)\<close> is recorded as a pair of the level and an
  English gloss of the message.
\<close>

type_synonym path = "string list"

datatype exn = ZeroDivisionError | IndexError | FfmpegError | OSError

datatype level = INFO | WARNING | ERROR | SUCCESS

type_synonym log = "(level \<times> string) list"

definition name_of :: "path \<Rightarrow> string" where
  "name_of p = (if p = [] then [] else last p)"

definition parent :: "path \<Rightarrow> path" where
  "parent p = butlast p"

text \<open>\<open>str.rfind\<close> for a single character; \<open>None\<close> stands for Python's \<open>-1\<close>.\<close>

fun rfind :: "char \<Rightarrow> string \<Rightarrow> nat option" where
  "rfind c [] = None"
| "rfind c (x # xs) =
     (case rfind c xs of
        Some i \<Rightarrow> Some (Suc i)
      | None \<Rightarrow> if x = c then Some 0 else None)"

text \<open>\<open>PurePath.suffix\<close> and \<open>PurePath.stem\<close>: split at the last dot unless it is the first or
  the last character of the name.\<close>

definition suffix_of :: "string \<Rightarrow> string" where
  "suffix_of name =
     (case rfind (CHR ''.'') name of
        None \<Rightarrow> []
      | Some i \<Rightarrow> if 0 < i \<and> i < length name - 1 then drop i name else [])"

definition stem_of :: "string \<Rightarrow> string" where
  "stem_of name =
     (case rfind (CHR ''.'') name of
        None \<Rightarrow> name
      | Some i \<Rightarrow> if 0 < i \<and> i < length name - 1 then take i name else name)"

text \<open>\<open>str(counter)\<close> for a non-negative integer: its decimal digits.\<close>

definition digit_char :: "nat \<Rightarrow> char" where
  "digit_char d = ''0123456789'' ! d"

function str_nat :: "nat \<Rightarrow> string" where
  "str_nat n = (if n < 10 then [digit_char n] else str_nat (n div 10) @ [digit_char (n mod 10)])"
  by pat_completeness auto
termination
  by (relation "measure id") auto

text \<open>
  \<open>str.lower\<close>, as far as it decides a comparison with a list of ASCII strings: the ASCII
  capitals become small letters, and so does the Kelvin sign U+212A (the bytes E2 84 AA),
  the one character outside ASCII whose lower-case form consists of ASCII characters. Every
  other byte is left as it is.
\<close>

definition lower_char :: "char \<Rightarrow> char" where
  "lower_char c =
     (case map_of (zip ''ABCDEFGHIJKLMNOPQRSTUVWXYZ'' ''abcdefghijklmnopqrstuvwxyz'') c of
        Some d \<Rightarrow> d
      | None \<Rightarrow> c)"

fun lower :: "string \<Rightarrow> string" where
  "lower (c1 # c2 # c3 # s) =
     (if c1 = CHR 0xE2 \<and> c2 = CHR 0x84 \<and> c3 = CHR 0xAA then CHR ''k'' # lower s
      else lower_char c1 # lower (c2 # c3 # s))"
| "lower (c # s) = lower_char c # lower s"
| "lower [] = []"

text \<open>The folder names of \<open>MediaProcessor.__init__\<close>, as UTF-8 bytes.\<close>

definition used_name :: string where
  "used_name = [CHR 0xE4, CHR 0xBD, CHR 0xBF, CHR 0xE7, CHR 0x94, CHR 0xA8, CHR 0xE6, CHR 0xB8,
                CHR 0x88, CHR 0xE3, CHR 0x81, CHR 0xBF, CHR 0xE7, CHR 0xB4, CHR 0xA0, CHR 0xE6,
                CHR 0x9D, CHR 0x90]"

definition input_audio_name :: string where
  "input_audio_name = ''01_'' @ [CHR 0xE6, CHR 0x9B, CHR 0xB2] @ ''_Input''"

definition input_video_name :: string where
  "input_video_name =
     ''02_'' @ [CHR 0xE5, CHR 0x85, CHR 0x83, CHR 0xE5, CHR 0x8B, CHR 0x95, CHR 0xE7, CHR 0x94,
                CHR 0xBB] @ ''_Sora''"

definition ai_video_name :: string where
  "ai_video_name =
     ''04_AI'' @ [CHR 0xE5, CHR 0x8B, CHR 0x95, CHR 0xE7, CHR 0x94, CHR 0xBB] @ ''_'' @
     [CHR 0xE7, CHR 0x94, CHR 0x9F, CHR 0xE6, CHR 0x88, CHR 0x90, CHR 0xE4, CHR 0xB8, CHR 0xAD]"

definition hq_video_name :: string where
  "hq_video_name =
     ''05_'' @ [CHR 0xE5, CHR 0x8B, CHR 0x95, CHR 0xE7, CHR 0x94, CHR 0xBB] @ ''_'' @
     [CHR 0xE9, CHR 0xAB, CHR 0x98, CHR 0xE5, CHR 0x93, CHR 0x81, CHR 0xE8, CHR 0xB3, CHR 0xAA,
      CHR 0xE5, CHR 0x8C, CHR 0x96]"

definition lipsync_video_name :: string where
  "lipsync_video_name =
     ''06_'' @ [CHR 0xE5, CHR 0x8B, CHR 0x95, CHR 0xE7, CHR 0x94, CHR 0xBB] @ ''_'' @
     [CHR 0xE5, CHR 0x8F, CHR 0xA3, CHR 0xE3, CHR 0x83, CHR 0x91, CHR 0xE3, CHR 0x82, CHR 0xAF]"

definition final_assets_name :: string where
  "final_assets_name =
     ''99_MV_'' @ [CHR 0xE7, CHR 0xB7, CHR 0xA8, CHR 0xE9, CHR 0x9B, CHR 0x86, CHR 0xE7, CHR 0xB4,
                   CHR 0xA0, CHR 0xE6, CHR 0x9D, CHR 0x90]"

section \<open>Beat grid: \<open>MediaProcessor.load_beat_data\<close>\<close>

text \<open>
  The sidecar CSV is either absent, unreadable (\<open>pd.read_csv\<close> raises) or a table whose
  columns are looked up by name. The result dictionary is a record; the field names carry
  the prefix \<open>bd_\<close> because the planner below uses \<open>beat_times\<close> as a variable.
\<close>

datatype csv_file = Missing | Unreadable | Table "string \<rightharpoonup> real list"

record beat_data =
  bd_bpm :: real
  bd_beat_times :: "real list"
  bd_total_beats :: nat

definition load_beat_data :: "csv_file \<Rightarrow> beat_data option \<times> log" where
  "load_beat_data csv =
     (case csv of
        Missing \<Rightarrow> (None, [(WARNING, ''beat data not found'')])
      | Unreadable \<Rightarrow> (None, [(ERROR, ''beat data read error'')])
      | Table df \<Rightarrow>
          (case df ''beat_time_seconds'' of
             None \<Rightarrow> (None, [(ERROR, ''beat data format is not correct'')])
           | Some beat_times \<Rightarrow>
               (let bpm = (if length beat_times \<ge> 2
                           then (let beat_interval = beat_times ! 1 - beat_times ! 0
                                 in if beat_interval > 0 then 60 / beat_interval else 120)
                           else 120)
                in (Some \<lparr>bd_bpm = bpm, bd_beat_times = beat_times,
                          bd_total_beats = length beat_times\<rparr>, []))))"

section \<open>Clip segment planning in \<open>MediaProcessor.create_mv_from_clips\<close>\<close>

record segment =
  clip :: path
  start_time :: real
  duration :: real
  output_start :: real

definition beats_per_clip :: nat where
  "beats_per_clip = 4"

text \<open>
  The beat-synced loop \<open>for i in range(0, len(beat_times), beats_per_clip)\<close>, with the loop
  variable, \<open>clip_index\<close> and \<open>clip_segments\<close> as explicit state. Indexing an empty clip list
  is Python's \<open>ZeroDivisionError\<close> of \<open>clip_index % 0\<close>.
\<close>

function beat_loop ::
  "path list \<Rightarrow> real list \<Rightarrow> real list \<Rightarrow> real \<Rightarrow> nat \<Rightarrow> nat \<Rightarrow> segment list
     \<Rightarrow> exn + segment list" where
  "beat_loop video_clips clip_durations beat_times audio_duration i clip_index clip_segments =
     (if i < length beat_times then
        (let segment_start = beat_times ! i;
             segment_end = (if i + beats_per_clip < length beat_times
                            then beat_times ! (i + beats_per_clip) else audio_duration);
             segment_duration = segment_end - segment_start
         in if segment_duration \<le> 0
            then beat_loop video_clips clip_durations beat_times audio_duration
                   (i + beats_per_clip) clip_index clip_segments
            else if length video_clips = 0 then Inl ZeroDivisionError
            else if \<not> clip_index mod length video_clips < length clip_durations
              then Inl IndexError
            else (let clip = video_clips ! (clip_index mod length video_clips);
                      clip_duration = clip_durations ! (clip_index mod length video_clips)
                  in if clip_duration \<le> 0
                     then beat_loop video_clips clip_durations beat_times audio_duration
                            (i + beats_per_clip) (clip_index + 1) clip_segments
                     else (let use_duration = min clip_duration segment_duration
                           in beat_loop video_clips clip_durations beat_times audio_duration
                                (i + beats_per_clip) (clip_index + 1)
                                (clip_segments @
                                   [\<lparr>clip = clip, start_time = 0, duration = use_duration,
                                     output_start = segment_start\<rparr>]))))
      else Inr clip_segments)"
  by pat_completeness auto
termination
  by (relation "measure (\<lambda>(vc, cd, bt, a, i, ci, segs). length bt - i)")
     (auto simp: beats_per_clip_def)

definition beat_sync_plan ::
  "path list \<Rightarrow> real list \<Rightarrow> real list \<Rightarrow> real \<Rightarrow> exn + segment list" where
  "beat_sync_plan video_clips clip_durations beat_times audio_duration =
     beat_loop video_clips clip_durations beat_times audio_duration 0 0 []"

text \<open>
  The sequential loop \<open>while current_time < audio_duration\<close>. Nothing in the source bounds
  the number of iterations, so the loop is a partial function: \<open>None\<close> is the run that never
  leaves the loop.
\<close>

partial_function (option) seq_loop ::
  "path list \<Rightarrow> real list \<Rightarrow> real \<Rightarrow> real \<Rightarrow> nat \<Rightarrow> segment list
     \<Rightarrow> (exn + segment list) option" where
  "seq_loop video_clips clip_durations audio_duration current_time clip_index clip_segments =
     (if current_time < audio_duration then
        (if length video_clips = 0 then Some (Inl ZeroDivisionError)
         else if \<not> clip_index mod length video_clips < length clip_durations
           then Some (Inl IndexError)
         else (let clip = video_clips ! (clip_index mod length video_clips);
                   clip_duration = clip_durations ! (clip_index mod length video_clips);
                   remaining = audio_duration - current_time;
                   use_duration = min clip_duration remaining
               in seq_loop video_clips clip_durations audio_duration
                    (current_time + use_duration) (clip_index + 1)
                    (clip_segments @
                       [\<lparr>clip = clip, start_time = 0, duration = use_duration,
                         output_start = current_time\<rparr>])))
      else Some (Inr clip_segments))"

definition sequential_fill_plan ::
  "path list \<Rightarrow> real list \<Rightarrow> real \<Rightarrow> (exn + segment list) option" where
  "sequential_fill_plan video_clips clip_durations audio_duration =
     seq_loop video_clips clip_durations audio_duration 0 0 []"

subsection \<open>Vocabulary for statements about plans\<close>

text \<open>
  Window \<open>k\<close> is the \<open>k\<close>-th iteration of the beat loop (\<open>i = beats_per_clip * k\<close>); its start,
  end and duration are the loop's \<open>segment_start\<close>, \<open>segment_end\<close> and \<open>segment_duration\<close>.
\<close>

definition num_windows :: "real list \<Rightarrow> nat" where
  "num_windows beat_times = (length beat_times + (beats_per_clip - 1)) div beats_per_clip"

definition window_start :: "real list \<Rightarrow> nat \<Rightarrow> real" where
  "window_start beat_times k = beat_times ! (beats_per_clip * k)"

definition window_end :: "real list \<Rightarrow> real \<Rightarrow> nat \<Rightarrow> real" where
  "window_end beat_times audio_duration k =
     (if beats_per_clip * k + beats_per_clip < length beat_times
      then beat_times ! (beats_per_clip * k + beats_per_clip) else audio_duration)"

definition window_duration :: "real list \<Rightarrow> real \<Rightarrow> nat \<Rightarrow> real" where
  "window_duration beat_times audio_duration k =
     window_end beat_times audio_duration k - window_start beat_times k"

text \<open>The number of windows before window \<open>k\<close> that have a positive duration.\<close>

definition clip_index_at :: "real list \<Rightarrow> real \<Rightarrow> nat \<Rightarrow> nat" where
  "clip_index_at beat_times audio_duration k =
     length (filter (\<lambda>j. 0 < window_duration beat_times audio_duration j) [0..<k])"

text \<open>
  The segments a window contributes when the clip index used for window \<open>k\<close> is
  \<open>index_of k\<close>: none for a window of duration \<open>\<le> 0\<close> or a clip of duration \<open>\<le> 0\<close>.
\<close>

definition window_segments ::
  "(nat \<Rightarrow> nat) \<Rightarrow> path list \<Rightarrow> real list \<Rightarrow> real list \<Rightarrow> real \<Rightarrow> nat \<Rightarrow> segment list" where
  "window_segments index_of video_clips clip_durations beat_times audio_duration k =
     (if window_duration beat_times audio_duration k \<le> 0 then []
      else if clip_durations ! (index_of k mod length video_clips) \<le> 0 then []
      else [\<lparr>clip = video_clips ! (index_of k mod length video_clips),
             start_time = 0,
             duration = min (clip_durations ! (index_of k mod length video_clips))
                            (window_duration beat_times audio_duration k),
             output_start = window_start beat_times k\<rparr>])"

text \<open>
  The plan as the specification words it: the clip of window \<open>k\<close> is
  \<open>clips[k mod len(clips)]\<close>, the index advancing on every window.
\<close>

definition spec_round_robin_plan ::
  "path list \<Rightarrow> real list \<Rightarrow> real list \<Rightarrow> real \<Rightarrow> segment list" where
  "spec_round_robin_plan video_clips clip_durations beat_times audio_duration =
     concat (map (window_segments (\<lambda>k. k) video_clips clip_durations beat_times audio_duration)
               [0..<num_windows beat_times])"


section \<open>Assembly: \<open>MediaProcessor.create_mv_from_clips\<close>\<close>

subsection \<open>The duration-matching step\<close>

text \<open>
  The external tool is idealised: a demuxer-level concatenation lasts as long as the sum of
  its parts, and the output option \<open>t\<close> cuts a stream that is longer and leaves a shorter one
  as it is. \<open>py_int\<close> is Python's \<open>int\<close> on a float (truncation towards zero) and
  \<open>range_len n\<close> the number of iterations of \<open>range(n)\<close>.
\<close>

definition concat_duration :: "real list \<Rightarrow> real" where
  "concat_duration durations = sum_list durations"

definition limit_duration :: "real \<Rightarrow> real \<Rightarrow> real" where
  "limit_duration t d = min t d"

definition py_int :: "real \<Rightarrow> int" where
  "py_int x = (if 0 \<le> x then \<lfloor>x\<rfloor> else \<lceil>x\<rceil>)"

definition range_len :: "int \<Rightarrow> nat" where
  "range_len n = (if n \<le> 0 then 0 else nat n)"

text \<open>
  \<open>loop_count\<close> is computed by the source and never used, but its division raises when the
  final segment file is empty.
\<close>

definition loop_count :: "real \<Rightarrow> real \<Rightarrow> nat \<Rightarrow> exn + int" where
  "loop_count audio_duration combined_duration final_size =
     (if real final_size / (1024 * 1024) * (1 / 10) = 0 then Inl ZeroDivisionError
      else Inr (py_int ((audio_duration - combined_duration) /
                        (real final_size / (1024 * 1024) * (1 / 10))) + 1))"

text \<open>
  The duration of the video track handed to the muxer, from the durations of the segment
  files, the size in bytes of the last one and the audio duration. The whole step runs under
  \<open>try: ... except: pass\<close>, so a raise leaves the combined video as it was.
\<close>

definition matched_video_duration :: "real list \<Rightarrow> nat \<Rightarrow> real \<Rightarrow> real" where
  "matched_video_duration segment_durations final_size audio_duration =
     (let combined_duration = concat_duration segment_durations
      in if combined_duration < audio_duration then
           (if segment_durations = [] then combined_duration
            else (let final_segment = last segment_durations
                  in case loop_count audio_duration combined_duration final_size of
                       Inl e \<Rightarrow> combined_duration
                     | Inr n \<Rightarrow>
                         limit_duration audio_duration
                           (concat_duration
                              (segment_durations @
                               replicate
                                 (range_len (py_int ((audio_duration - combined_duration) / 2) + 1))
                                 final_segment))))
         else if combined_duration > audio_duration
           then limit_duration audio_duration combined_duration
         else combined_duration)"

subsection \<open>Control flow of the whole operation\<close>

text \<open>
  Everything the operation asks of the outside world is an oracle of the environment:
  a raise is \<open>Inl\<close> (or \<open>Some\<close> for a step without a result). \<open>FfmpegError\<close> is
  \<open>ffmpeg.Error\<close>; the other exceptions are further subclasses of \<open>Exception\<close>.
  Two things are not oracles: the log sink \<open>log_callback\<close>, which is taken to record its
  entry and return (the clause \<open>except Exception\<close> writes to it too, so a sink that raises
  would let its exception out), and memory, which is taken to be unbounded.
\<close>

datatype video_file = Combined | Trimmed

record mv_env =
  audio_exists :: bool
  probe_audio :: "exn + real"
  make_temp_dir :: "exn option"
  beats_csv :: csv_file
  probe_clip :: "path \<Rightarrow> exn + real"
  extract_segment :: "nat \<Rightarrow> segment \<Rightarrow> exn + bool"
  write_concat_list :: "exn option"
  concat_segments :: "exn option"
  probe_combined :: "exn + real"
  trim_combined :: "exn option"
  mux :: "video_file \<Rightarrow> exn option"
  output_exists :: bool
  output_size :: nat

text \<open>The loop over \<open>video_clips\<close> that probes each clip; a failed probe counts as duration 0.\<close>

definition probe_durations :: "(path \<Rightarrow> exn + real) \<Rightarrow> path list \<Rightarrow> real list" where
  "probe_durations probe video_clips =
     map (\<lambda>clip. case probe clip of Inr d \<Rightarrow> d | Inl e \<Rightarrow> 0) video_clips"

text \<open>
  The loop \<open>for i, segment in enumerate(clip_segments)\<close>: a segment file is named by its
  index and kept only if it exists after the tool has run.
\<close>

fun extract_segments ::
  "(nat \<Rightarrow> segment \<Rightarrow> exn + bool) \<Rightarrow> nat \<Rightarrow> segment list \<Rightarrow> nat list \<Rightarrow> exn + nat list" where
  "extract_segments run i [] segment_files = Inr segment_files"
| "extract_segments run i (segment # rest) segment_files =
     (case run i segment of
        Inl e \<Rightarrow> Inl e
      | Inr file_exists \<Rightarrow>
          extract_segments run (i + 1) rest
            (if file_exists then segment_files @ [i] else segment_files))"

text \<open>
  Which file is muxed after the duration-matching step (\<open>except: pass\<close> included): padding
  rewrites the combined file in place, trimming writes a new file.
\<close>

definition match_step :: "mv_env \<Rightarrow> real \<Rightarrow> video_file" where
  "match_step env audio_duration =
     (case probe_combined env of
        Inl e \<Rightarrow> Combined
      | Inr combined_duration \<Rightarrow>
          if combined_duration < audio_duration then Combined
          else if combined_duration > audio_duration
            then (case trim_combined env of None \<Rightarrow> Trimmed | Some e \<Rightarrow> Combined)
          else Combined)"

text \<open>The body of the inner \<open>try\<close>, before its \<open>except ffmpeg.Error\<close> clause.\<close>

definition render_segments :: "mv_env \<Rightarrow> real \<Rightarrow> segment list \<Rightarrow> (exn + bool) \<times> log" where
  "render_segments env audio_duration clip_segments =
     (case extract_segments (extract_segment env) 0 clip_segments [] of
        Inl e \<Rightarrow> (Inl e, [])
      | Inr segment_files \<Rightarrow>
          if segment_files = []
          then (Inr False, [(ERROR, ''no segment file was generated'')])
          else (case write_concat_list env of
                  Some e \<Rightarrow> (Inl e, [])
                | None \<Rightarrow>
                   (case concat_segments env of
                      Some e \<Rightarrow>
                        if e = FfmpegError
                        then (Inr False, [(ERROR, ''video concatenation error'')])
                        else (Inl e, [])
                    | None \<Rightarrow>
                       (let combined_video = match_step env audio_duration
                        in case mux env combined_video of
                             Some e \<Rightarrow> (Inl e, [])
                           | None \<Rightarrow>
                               if output_exists env \<and> output_size env > 0
                               then (Inr True, [(SUCCESS, ''MV generation finished'')])
                               else (Inr False, [(ERROR, ''MV file was not generated'')])))))"

text \<open>The inner \<open>try\<close> with its clause \<open>except ffmpeg.Error\<close>.\<close>

definition render_guarded :: "mv_env \<Rightarrow> real \<Rightarrow> segment list \<Rightarrow> (exn + bool) \<times> log" where
  "render_guarded env audio_duration clip_segments =
     (case render_segments env audio_duration clip_segments of
        (Inl e, lg) \<Rightarrow>
          if e = FfmpegError then (Inr False, lg @ [(ERROR, ''MV generation error (ffmpeg)'')])
          else (Inl e, lg)
      | (Inr b, lg) \<Rightarrow> (Inr b, lg))"

text \<open>
  The body of the outer \<open>try\<close>. \<open>None\<close> is the run that never leaves the sequential planning
  loop.
\<close>

definition create_mv_body ::
  "mv_env \<Rightarrow> path list \<Rightarrow> bool \<Rightarrow> ((exn + bool) \<times> log) option" where
  "create_mv_body env video_clips sync_to_beat =
     (let log0 = [(INFO, ''MV generation started'')]
      in if \<not> audio_exists env
         then Some (Inr False, log0 @ [(ERROR, ''audio file not found'')])
         else
          (let audio_duration = (case probe_audio env of Inr d \<Rightarrow> d | Inl e \<Rightarrow> 0)
           in if audio_duration \<le> 0
              then Some (Inr False, log0 @ [(ERROR, ''could not get the audio duration'')])
              else
               (case make_temp_dir env of
                  Some e \<Rightarrow> Some (Inl e, log0)
                | None \<Rightarrow>
                   (let (beat_data, log1) =
                          (if sync_to_beat
                           then (case load_beat_data (beats_csv env) of
                                   (Some bd, lg) \<Rightarrow> (Some bd, lg @ [(INFO, ''beat data loaded'')])
                                 | (None, lg) \<Rightarrow>
                                     (None, lg @ [(WARNING, ''no beat data, plain concatenation'')]))
                           else (None, []));
                        clip_durations = probe_durations (probe_clip env) video_clips;
                        plan = (case beat_data of
                                  Some bd \<Rightarrow>
                                    Some (beat_sync_plan video_clips clip_durations
                                            (bd_beat_times bd) audio_duration)
                                | None \<Rightarrow>
                                    sequential_fill_plan video_clips clip_durations audio_duration)
                    in case plan of
                         None \<Rightarrow> None
                       | Some (Inl e) \<Rightarrow> Some (Inl e, log0 @ log1)
                       | Some (Inr clip_segments) \<Rightarrow>
                           (case render_guarded env audio_duration clip_segments of
                              (r, lg) \<Rightarrow>
                                Some (r, log0 @ log1 @ [(INFO, ''segments generated'')] @ lg))))))"

text \<open>
  The operation: the outer \<open>try\<close> with its clause \<open>except Exception\<close>. The result keeps the
  sum type, so that "an exception leaves the function" is a value that can be ruled out.
\<close>

definition create_mv_from_clips ::
  "mv_env \<Rightarrow> path list \<Rightarrow> bool \<Rightarrow> ((exn + bool) \<times> log) option" where
  "create_mv_from_clips env video_clips sync_to_beat =
     (case create_mv_body env video_clips sync_to_beat of
        None \<Rightarrow> None
      | Some (Inl e, lg) \<Rightarrow> Some (Inr False, lg @ [(ERROR, ''MV generation error'')])
      | Some (Inr b, lg) \<Rightarrow> Some (Inr b, lg))"

section \<open>The finalize stage: \<open>MediaProcessor.finalize_assets\<close>\<close>

text \<open>
  The file system maps a path to a regular file with its bytes or to a directory.
  Failures that do not follow from the state of the file system (permissions, a full disk,
  a file the probe cannot read) are flags of \<open>faults\<close>.
\<close>

datatype node = File "nat list" | Dir

type_synonym filesystem = "path \<rightharpoonup> node"

record faults =
  probe_fails :: bool
  mkdir_fails :: bool
  copy_fails :: bool
  move_fails :: bool
  xml_write_fails :: bool

definition st_size :: "node \<Rightarrow> nat" where
  "st_size n = (case n of File bytes \<Rightarrow> length bytes | Dir \<Rightarrow> 4096)"

text \<open>
  The collision loops \<open>while p.exists(): p = candidate(counter); counter += 1\<close>. The number
  of iterations is not bounded by the source, so the loop is a partial function.
\<close>

partial_function (option) free_path ::
  "filesystem \<Rightarrow> (nat \<Rightarrow> path) \<Rightarrow> path \<Rightarrow> nat \<Rightarrow> path option" where
  "free_path fs candidate p counter =
     (if fs p \<noteq> None then free_path fs candidate (candidate counter) (counter + 1)
      else Some p)"

definition numbered :: "string \<Rightarrow> nat \<Rightarrow> string \<Rightarrow> string" where
  "numbered stem counter sfx = stem @ ''('' @ str_nat counter @ '')'' @ sfx"

text \<open>\<open>Path.mkdir(parents=True, exist_ok=True)\<close>: fails when a regular file is in the way.\<close>

definition is_file :: "node option \<Rightarrow> bool" where
  "is_file entry = (case entry of Some (File bytes) \<Rightarrow> True | _ \<Rightarrow> False)"

definition mkdir_parents :: "faults \<Rightarrow> filesystem \<Rightarrow> path \<Rightarrow> exn + filesystem" where
  "mkdir_parents flt fs p =
     (if mkdir_fails flt \<or> (\<exists>q \<in> set (prefixes p). is_file (fs q))
      then Inl OSError
      else Inr (\<lambda>q. if prefix q p then Some Dir else fs q))"

text \<open>
  \<open>shutil.copy2\<close> and \<open>shutil.move\<close> of a regular file; a destination that is an existing
  directory receives the file under its own name (\<open>move\<close> refuses when that name is taken),
  any other destination is written or overwritten.
\<close>

definition copy2 :: "faults \<Rightarrow> filesystem \<Rightarrow> path \<Rightarrow> path \<Rightarrow> exn + filesystem" where
  "copy2 flt fs src dst =
     (case fs src of
        Some (File bytes) \<Rightarrow>
          (let target = (if fs dst = Some Dir then dst @ [name_of src] else dst)
           in if copy_fails flt \<or> fs (parent target) \<noteq> Some Dir \<or> fs target = Some Dir
                 \<or> target = src
              then Inl OSError
              else Inr (fs(target \<mapsto> File bytes)))
      | _ \<Rightarrow> Inl OSError)"

definition move :: "faults \<Rightarrow> filesystem \<Rightarrow> path \<Rightarrow> path \<Rightarrow> exn + filesystem" where
  "move flt fs src dst =
     (case fs src of
        Some (File bytes) \<Rightarrow>
          if fs dst = Some Dir
          then (let target = dst @ [name_of src]
                in if move_fails flt \<or> fs target \<noteq> None then Inl OSError
                   else Inr ((fs(src := None))(target \<mapsto> File bytes)))
          else if move_fails flt \<or> fs (parent dst) \<noteq> Some Dir then Inl OSError
          else Inr ((fs(src := None))(dst \<mapsto> File bytes))
      | _ \<Rightarrow> Inl OSError)"

definition final_assets_dir :: "path \<Rightarrow> path" where
  "final_assets_dir base_dir = base_dir @ [final_assets_name]"

definition lipsync_video_dir :: "path \<Rightarrow> path" where
  "lipsync_video_dir base_dir = base_dir @ [lipsync_video_name]"

text \<open>
  The steps after the video has reached the set folder: the metadata file is written under a
  free name (a failure is logged and ignored) and the success entry is logged.
\<close>

definition write_metadata ::
  "faults \<Rightarrow> nat list \<Rightarrow> filesystem \<Rightarrow> log \<Rightarrow> path \<Rightarrow> string \<Rightarrow> (filesystem \<times> log) option" where
  "write_metadata flt xml fs lg set_folder video_name =
     (case free_path fs
             (\<lambda>counter. set_folder @ [video_name @ ''_metadata('' @ str_nat counter @ '').xml''])
             (set_folder @ [video_name @ ''_metadata.xml'']) 1 of
        None \<Rightarrow> None
      | Some xml_path \<Rightarrow>
          if xml_write_fails flt \<or> fs (parent xml_path) \<noteq> Some Dir
          then Some (fs, lg @ [(ERROR, ''XML generation error''), (SUCCESS, ''finalize finished'')])
          else Some (fs(xml_path \<mapsto> File xml),
                     lg @ [(SUCCESS, ''XML metadata generated''),
                           (SUCCESS, ''finalize finished'')]))"

text \<open>
  \<open>finalize_assets\<close>, returning the file system and the log entries it leaves; \<open>xml\<close> stands for
  the bytes of the metadata document. \<open>None\<close> is a collision loop that never ends.
\<close>

definition finalize_assets ::
  "path \<Rightarrow> faults \<Rightarrow> nat list \<Rightarrow> filesystem \<Rightarrow> path \<Rightarrow> (filesystem \<times> log) option" where
  "finalize_assets base_dir flt xml fs file_path =
     (case fs file_path of
        None \<Rightarrow> Some (fs, [(ERROR, ''file not found'')])
      | Some n \<Rightarrow>
          if st_size n = 0 then Some (fs, [(ERROR, ''empty file'')])
          else if probe_fails flt \<or> n = Dir
            then Some (fs, [(INFO, ''finalize started''),
                            (ERROR, ''could not get the video information'')])
          else
           (let lg0 = [(INFO, ''finalize started'')];
                video_name = stem_of (name_of file_path)
            in case free_path fs
                      (\<lambda>counter. final_assets_dir base_dir @
                                    [video_name @ ''('' @ str_nat counter @ '')''])
                      (final_assets_dir base_dir @ [video_name]) 1 of
                 None \<Rightarrow> None
               | Some set_folder \<Rightarrow>
                  (case mkdir_parents flt fs set_folder of
                     Inl e \<Rightarrow> Some (fs, lg0 @ [(ERROR, ''finalize error'')])
                   | Inr fs1 \<Rightarrow>
                      (let lg1 = lg0 @ [(INFO, ''set folder created'')];
                           stem = stem_of (name_of file_path);
                           suffix = suffix_of (name_of file_path)
                       in case free_path fs1
                                 (\<lambda>counter. set_folder @ [numbered stem counter suffix])
                                 (set_folder @ [name_of file_path]) 1 of
                            None \<Rightarrow> None
                          | Some dest_video_path \<Rightarrow>
                             if used_name \<in> set file_path
                             then (case copy2 flt fs1 file_path dest_video_path of
                                     Inl e \<Rightarrow> Some (fs1, lg1 @ [(ERROR, ''file move failed'')])
                                   | Inr fs2 \<Rightarrow>
                                       write_metadata flt xml fs2
                                         (lg1 @ [(INFO, ''video copied (from the used folder)'')])
                                         set_folder video_name)
                             else
                              (let used_dir = lipsync_video_dir base_dir @ [used_name]
                               in case free_path fs1
                                         (\<lambda>counter. used_dir @ [numbered stem counter suffix])
                                         (used_dir @ [name_of file_path]) 1 of
                                    None \<Rightarrow> None
                                  | Some used_path \<Rightarrow>
                                     (case move flt fs1 file_path used_path of
                                        Inl e \<Rightarrow>
                                          Some (fs1, lg1 @ [(ERROR, ''file move failed'')])
                                      | Inr fs2 \<Rightarrow>
                                         (case copy2 flt fs2 used_path dest_video_path of
                                            Inl e \<Rightarrow>
                                              Some (fs2, lg1 @ [(INFO, ''original moved''),
                                                                (ERROR, ''file move failed'')])
                                          | Inr fs3 \<Rightarrow>
                                              write_metadata flt xml fs3
                                                (lg1 @ [(INFO, ''original moved''),
                                                        (INFO, ''video copied'')])
                                                set_folder video_name)))))))"

section \<open>The watcher: \<open>MediaFileHandler.on_created\<close>\<close>

record event =
  is_directory :: bool
  src_path :: path

text \<open>A started worker thread, by its target.\<close>

datatype task =
    ProcessAudio path
  | ProcessVideo path
  | TriggerQuality path
  | ProcessLipsync path
  | FinalizeAssets path

definition valid_audio_extensions :: "string set" where
  "valid_audio_extensions = {''.mp3'', ''.wav'', ''.flac'', ''.m4a'', ''.aac'', ''.ogg'', ''.wma''}"

definition valid_video_extensions :: "string set" where
  "valid_video_extensions =
     {''.mp4'', ''.avi'', ''.mov'', ''.mkv'', ''.wmv'', ''.flv'', ''.webm'', ''.m4v''}"

text \<open>
  The handler reads the file system as it is after the one-second wait and writes nothing
  to it; what it leaves behind is the set \<open>processed_files\<close>, the log entries and the worker
  threads it starts.
\<close>

definition on_created ::
  "filesystem \<Rightarrow> path set \<Rightarrow> event \<Rightarrow> path set \<times> log \<times> task list" where
  "on_created fs processed_files ev =
     (if is_directory ev then (processed_files, [], [])
      else
       (let file_path = src_path ev
        in if file_path \<in> processed_files then (processed_files, [], [])
           else if fs file_path = None then (processed_files, [], [])
           else
            (let file_ext = lower (suffix_of (name_of file_path));
                 parent_folder = name_of (parent file_path)
             in if parent_folder = input_audio_name \<and> file_ext \<notin> valid_audio_extensions
                then (processed_files, [(ERROR, ''unsupported audio file format'')], [])
                else if parent_folder = input_video_name \<and> file_ext \<notin> valid_video_extensions
                then (processed_files, [(ERROR, ''unsupported video file format'')], [])
                else
                 (insert file_path processed_files, [],
                  if parent_folder = input_audio_name then [ProcessAudio file_path]
                  else if parent_folder = input_video_name then [ProcessVideo file_path]
                  else if parent_folder = ai_video_name then [TriggerQuality file_path]
                  else if parent_folder = hq_video_name then [ProcessLipsync file_path]
                  else if parent_folder = lipsync_video_name then [FinalizeAssets file_path]
                  else []))))"

text \<open>
  The set \<open>processed_files\<close> of a handler created by \<open>__init__\<close> (empty) after a history of
  events, the latest first, each with the file system it met.
\<close>

fun handler_state :: "(filesystem \<times> event) list \<Rightarrow> path set" where
  "handler_state [] = {}"
| "handler_state (h # history) = fst (on_created (fst h) (handler_state history) (snd h))"

section \<open>Concrete inputs\<close>

text \<open>Nine beats, half a second apart (120 BPM).\<close>

definition beats9 :: "real list" where
  "beats9 = [0, 1/2, 1, 3/2, 2, 5/2, 3, 7/2, 4]"

text \<open>
  A persisted beat table with beats at 0, 0.75 and 1.5 seconds and a stored BPM of 90, and
  one with a single beat.
\<close>

definition stored_table :: "string \<rightharpoonup> real list" where
  "stored_table = [''beat_time_seconds'' \<mapsto> [0, 3 / 4, 3 / 2], ''beat_index'' \<mapsto> [0, 1, 2],
                   ''bpm'' \<mapsto> [90, 90, 90]]"

definition single_beat_table :: "string \<rightharpoonup> real list" where
  "single_beat_table = [''beat_time_seconds'' \<mapsto> [7 / 2], ''beat_index'' \<mapsto> [0]]"

text \<open>
  An environment in which every tool call succeeds, the audio lasts one second, no beat
  table exists and no clip can be probed.
\<close>

definition stuck_env :: mv_env where
  "stuck_env =
     \<lparr>audio_exists = True, probe_audio = Inr 1, make_temp_dir = None, beats_csv = Missing,
      probe_clip = (\<lambda>clip. Inl OSError), extract_segment = (\<lambda>i segment. Inr True),
      write_concat_list = None, concat_segments = None, probe_combined = Inr 1,
      trim_combined = None, mux = (\<lambda>video. None), output_exists = True, output_size = 1\<rparr>"

text \<open>
  An environment in which every tool call succeeds, the audio lasts ten seconds, the beat
  table holds the single beat 0.0 and every clip lasts half a second.
\<close>

definition short_env :: mv_env where
  "short_env =
     \<lparr>audio_exists = True, probe_audio = Inr 10, make_temp_dir = None,
      beats_csv = Table [''beat_time_seconds'' \<mapsto> [0], ''beat_index'' \<mapsto> [0]],
      probe_clip = (\<lambda>clip. Inr (1 / 2)), extract_segment = (\<lambda>i segment. Inr True),
      write_concat_list = None, concat_segments = None, probe_combined = Inr (1 / 2),
      trim_combined = None, mux = (\<lambda>video. None), output_exists = True, output_size = 1\<rparr>"

text \<open>A text file dropped into the audio intake folder.\<close>

definition txt_event :: event where
  "txt_event = \<lparr>is_directory = False, src_path = [''project'', input_audio_name, ''Notes.TXT'']\<rparr>"

definition txt_fs :: filesystem where
  "txt_fs = [[''project'', input_audio_name, ''Notes.TXT''] \<mapsto> File [72, 105]]"

text \<open>A video in the used folder of the lip-sync stage, in a project whose folders exist.\<close>

definition archived_path :: path where
  "archived_path = [''project'', lipsync_video_name, used_name, ''take1.mp4'']"

definition archived_fs :: filesystem where
  "archived_fs =
     [[''project''] \<mapsto> Dir,
      [''project'', final_assets_name] \<mapsto> Dir,
      [''project'', lipsync_video_name] \<mapsto> Dir,
      [''project'', lipsync_video_name, used_name] \<mapsto> Dir,
      archived_path \<mapsto> File [1, 2, 3]]"

definition no_faults :: faults where
  "no_faults = \<lparr>probe_fails = False, mkdir_fails = False, copy_fails = False,
                 move_fails = False, xml_write_fails = False\<rparr>"

text \<open>
  A video that has just arrived in the lip-sync folder, where the used folder and the set
  folder already hold something of its name.
\<close>

definition fresh_path :: path where
  "fresh_path = [''project'', lipsync_video_name, ''take1.mp4'']"

definition fresh_fs :: filesystem where
  "fresh_fs =
     [[''project''] \<mapsto> Dir,
      [''project'', final_assets_name] \<mapsto> Dir,
      [''project'', final_assets_name, ''take1''] \<mapsto> Dir,
      [''project'', lipsync_video_name] \<mapsto> Dir,
      [''project'', lipsync_video_name, used_name] \<mapsto> Dir,
      [''project'', lipsync_video_name, used_name, ''take1.mp4''] \<mapsto> File [9],
      fresh_path \<mapsto> File [1, 2, 3]]"

section \<open>Beat grid loading: results\<close>

text \<open>
  What the loader returns for any table that has the column \<open>beat_time_seconds\<close>: line 909
  guards the division, so the default 120 is also returned when the first interval is not
  positive.
\<close>

lemma load_beat_data_result:
  assumes "df ''beat_time_seconds'' = Some beat_times"
  shows "\<exists>bd. load_beat_data (Table df) = (Some bd, []) \<and>
           bd_beat_times bd = beat_times \<and>
           bd_total_beats bd = length beat_times \<and>
           bd_bpm bd =
             (if 2 \<le> length beat_times \<and> beat_times ! 0 < beat_times ! 1
              then 60 / (beat_times ! 1 - beat_times ! 0) else 120)"
  using assms by (simp add: load_beat_data_def Let_def)

text \<open>
  C3. For every persisted beat table, that is a table whose column \<open>beat_time_seconds\<close>
  holds strictly increasing beat times, whatever other columns (a stored BPM among them) it
  has: loading succeeds, returns the stored beat times and their count, and the BPM is
  \<open>60 / (beat_times[1] - beat_times[0])\<close> when there are at least two beats and the default
  120 when there are fewer.
\<close>

theorem load_beat_data_bpm:
  assumes "df ''beat_time_seconds'' = Some beat_times" and "sorted_wrt (<) beat_times"
  shows "\<exists>bd. load_beat_data (Table df) = (Some bd, []) \<and>
           bd_beat_times bd = beat_times \<and>
           bd_total_beats bd = length beat_times \<and>
           bd_bpm bd =
             (if 2 \<le> length beat_times
              then 60 / (beat_times ! 1 - beat_times ! 0) else 120)"
proof -
  have "beat_times ! 0 < beat_times ! 1" if "2 \<le> length beat_times"
    using sorted_wrt_nth_less[OF assms(2), of 0 1] that by simp
  then show ?thesis using load_beat_data_result[of df beat_times, OF assms(1)] by auto
qed

text \<open>
  C3, witness: a table with beats at 0, 0.75 and 1.5 seconds and a stored BPM column of 90
  loads with BPM 80, and a table with the single beat 3.5 loads with BPM 120.
\<close>

theorem load_beat_data_bpm_witness:
  "stored_table ''beat_time_seconds'' = Some [0, 3 / 4, 3 / 2]
   \<and> sorted_wrt (<) [0, 3 / 4, 3 / (2::real)]
   \<and> load_beat_data (Table stored_table) =
       (Some \<lparr>bd_bpm = 80, bd_beat_times = [0, 3 / 4, 3 / 2], bd_total_beats = 3\<rparr>, [])
   \<and> single_beat_table ''beat_time_seconds'' = Some [7 / 2]
   \<and> sorted_wrt (<) [7 / (2::real)]
   \<and> load_beat_data (Table single_beat_table) =
       (Some \<lparr>bd_bpm = 120, bd_beat_times = [7 / 2], bd_total_beats = 1\<rparr>, [])"
proof -
  have s: "sorted_wrt (<) [0, 3 / 4, 3 / (2::real)]" "sorted_wrt (<) [7 / (2::real)]" by simp_all
  have c: "stored_table ''beat_time_seconds'' = Some [0, 3 / 4, 3 / 2]"
    "single_beat_table ''beat_time_seconds'' = Some [7 / 2]"
    by (simp_all add: stored_table_def single_beat_table_def)
  from load_beat_data_bpm[of stored_table "[0, 3 / 4, 3 / 2]", OF c(1) s(1)]
  have a: "load_beat_data (Table stored_table) =
       (Some \<lparr>bd_bpm = 80, bd_beat_times = [0, 3 / 4, 3 / 2], bd_total_beats = 3\<rparr>, [])"
    by auto
  from load_beat_data_bpm[of single_beat_table "[7 / 2]", OF c(2) s(2)]
  have b: "load_beat_data (Table single_beat_table) =
       (Some \<lparr>bd_bpm = 120, bd_beat_times = [7 / 2], bd_total_beats = 1\<rparr>, [])"
    by auto
  show ?thesis using a b c s by (simp only: simp_thms)
qed

section \<open>Beat-synced planning: results\<close>

lemma window_lt: "k < num_windows bt \<longleftrightarrow> beats_per_clip * k < length bt"
  by (auto simp: num_windows_def beats_per_clip_def)

lemma clip_index_at_Suc:
  "clip_index_at bt a (Suc k) =
     (if window_duration bt a k \<le> 0 then clip_index_at bt a k else clip_index_at bt a k + 1)"
  by (simp add: clip_index_at_def)

lemma clip_index_at_ordinal:
  "(\<forall>j<k. 0 < window_duration bt a j) \<Longrightarrow> clip_index_at bt a k = k"
proof (induction k)
  case 0
  show ?case by (simp add: clip_index_at_def)
next
  case (Suc k)
  then have "0 < window_duration bt a k" and "clip_index_at bt a k = k" by simp_all
  then show ?case by (simp add: clip_index_at_Suc)
qed

text \<open>
  The loop, entered at window \<open>k\<close> with the clip index that \<open>k\<close> windows have left, appends
  what the remaining windows contribute.
\<close>

lemma beat_loop_closed_form:
  assumes "video_clips \<noteq> []" and "length clip_durations = length video_clips"
  shows "beat_loop video_clips clip_durations bt a (beats_per_clip * k) (clip_index_at bt a k) acc =
         Inr (acc @ concat (map (window_segments (clip_index_at bt a) video_clips clip_durations bt a)
                              [k..<num_windows bt]))"
proof (induction "num_windows bt - k" arbitrary: k acc)
  case 0
  then have "\<not> beats_per_clip * k < length bt" by (simp add: window_lt[symmetric])
  moreover from 0 have "num_windows bt \<le> k" by simp
  ultimately show ?case by simp
next
  case (Suc n)
  then have lt: "k < num_windows bt" by simp
  then have i: "beats_per_clip * k < length bt" by (simp add: window_lt)
  have up: "[k..<num_windows bt] = k # [Suc k..<num_windows bt]"
    using lt by (simp add: upt_conv_Cons)
  have n: "n = num_windows bt - Suc k" using Suc(2) by simp
  have idx: "clip_index_at bt a k mod length video_clips < length clip_durations"
    using assms by simp
  note IH = Suc(1)[OF n]
  let ?ci = "clip_index_at bt a"
  let ?W = "window_segments ?ci video_clips clip_durations bt a"
  let ?rest = "concat (map ?W [Suc k..<num_windows bt])"
  note defs = window_duration_def window_end_def window_start_def
  show ?case
  proof (cases "window_duration bt a k \<le> 0")
    case True
    have "beat_loop video_clips clip_durations bt a (beats_per_clip * k) (?ci k) acc =
          beat_loop video_clips clip_durations bt a (beats_per_clip * Suc k) (?ci (Suc k)) acc"
      by (subst beat_loop.simps)
         (use True i in \<open>simp add: defs clip_index_at_Suc Let_def add.commute
                          del: beat_loop.simps\<close>)
    also have "\<dots> = Inr (acc @ ?rest)" by (rule IH)
    also have "acc @ ?rest = acc @ concat (map ?W [k..<num_windows bt])"
      using True by (simp add: up window_segments_def)
    finally show ?thesis .
  next
    case pos: False
    show ?thesis
    proof (cases "clip_durations ! (?ci k mod length video_clips) \<le> 0")
      case True
      have "beat_loop video_clips clip_durations bt a (beats_per_clip * k) (?ci k) acc =
            beat_loop video_clips clip_durations bt a (beats_per_clip * Suc k) (?ci (Suc k)) acc"
        by (subst beat_loop.simps)
           (use True pos i idx assms(1) in
              \<open>simp add: defs clip_index_at_Suc Let_def add.commute del: beat_loop.simps\<close>)
      also have "\<dots> = Inr (acc @ ?rest)" by (rule IH)
      also have "acc @ ?rest = acc @ concat (map ?W [k..<num_windows bt])"
        using True pos by (simp add: up window_segments_def)
      finally show ?thesis .
    next
      case False
      have "beat_loop video_clips clip_durations bt a (beats_per_clip * k) (?ci k) acc =
            beat_loop video_clips clip_durations bt a (beats_per_clip * Suc k) (?ci (Suc k))
              (acc @ ?W k)"
        by (subst beat_loop.simps)
           (use False pos i idx assms(1) in
              \<open>simp add: defs clip_index_at_Suc Let_def add.commute window_segments_def
                  del: beat_loop.simps\<close>)
      also have "\<dots> = Inr ((acc @ ?W k) @ ?rest)" by (rule IH)
      also have "(acc @ ?W k) @ ?rest = acc @ concat (map ?W [k..<num_windows bt])"
        by (simp add: up)
      finally show ?thesis .
    qed
  qed
qed

lemma beat_sync_plan_closed_form:
  assumes "video_clips \<noteq> []" and "length clip_durations = length video_clips"
  shows "beat_sync_plan video_clips clip_durations bt a =
         Inr (concat (map (window_segments (clip_index_at bt a) video_clips clip_durations bt a)
                        [0..<num_windows bt]))"
  using beat_loop_closed_form[OF assms, of bt a 0 "[]"]
  by (simp add: beat_sync_plan_def clip_index_at_def)





text \<open>
  On strictly increasing beat times every window but the last has a positive duration, so
  the clip index before each window is the window's ordinal.
\<close>

lemma strict_beats_windows_positive:
  assumes "sorted_wrt (<) bt" and "Suc j < num_windows bt"
  shows "0 < window_duration bt a j"
proof -
  have i: "beats_per_clip * j + beats_per_clip < length bt"
    using assms(2) by (simp add: window_lt add.commute)
  have "beats_per_clip * j < beats_per_clip * j + beats_per_clip"
    by (simp add: beats_per_clip_def)
  from sorted_wrt_nth_less[OF assms(1) this i] i show ?thesis
    by (simp add: window_duration_def window_end_def window_start_def)
qed

lemma strict_beats_clip_index:
  assumes "sorted_wrt (<) bt" and "k < num_windows bt"
  shows "clip_index_at bt a k = k"
proof (rule clip_index_at_ordinal, intro allI impI)
  fix j assume "j < k"
  then have "Suc j < num_windows bt" using assms(2) by simp
  then show "0 < window_duration bt a j" by (rule strict_beats_windows_positive[OF assms(1)])
qed




lemma beats9_windows: "num_windows beats9 = 3"
  by (simp add: num_windows_def beats9_def beats_per_clip_def)


lemma beats9_window_durations:
  "window_duration beats9 5 0 = 2" "window_duration beats9 5 1 = 2"
  "window_duration beats9 5 (Suc 0) = 2" "window_duration beats9 5 2 = 1"
  by (simp_all add: window_duration_def window_end_def window_start_def beats9_def
      beats_per_clip_def)










text \<open>
  The plan of the source is the round-robin plan of the specification whenever the beat
  times increase strictly.
\<close>

lemma strict_beats_round_robin:
  assumes "video_clips \<noteq> []" and "length clip_durations = length video_clips"
    and "sorted_wrt (<) beat_times"
  shows "beat_sync_plan video_clips clip_durations beat_times audio_duration =
           Inr (spec_round_robin_plan video_clips clip_durations beat_times audio_duration)"
proof -
  have "window_segments (clip_index_at beat_times audio_duration) video_clips
               clip_durations beat_times audio_duration k =
        window_segments (\<lambda>k. k) video_clips clip_durations beat_times audio_duration k"
    if "k \<in> set [0..<num_windows beat_times]" for k
  proof -
    from that have "k < num_windows beat_times" by simp
    from strict_beats_clip_index[OF assms(3) this, of audio_duration]
    show ?thesis by (simp only: window_segments_def)
  qed
  then have "map (window_segments (clip_index_at beat_times audio_duration) video_clips
               clip_durations beat_times audio_duration) [0..<num_windows beat_times] =
        map (window_segments (\<lambda>k. k) video_clips clip_durations beat_times audio_duration)
          [0..<num_windows beat_times]"
    by (rule map_cong[OF refl])
  then show ?thesis
    unfolding spec_round_robin_plan_def
    using beat_sync_plan_closed_form[OF assms(1,2), of beat_times audio_duration]
    by (simp only:)
qed

text \<open>
  C4. In beat-synced mode, for every beat grid (strictly increasing beat times) and every
  non-empty clip pool, the plan is the one that assigns to each window the clip
  \<open>clips[window_ordinal mod len(clips)]\<close>, and the clip index with which the loop enters a
  window is the window's ordinal. The index advances on every window but a degenerate one
  (lines 1146-1147), and on such a grid only the last window can be degenerate, so the
  cadence is kept; a window whose clip has a duration \<open>\<le> 0\<close> is skipped and the index
  advances.
\<close>

theorem beat_plan_round_robin:
  assumes "video_clips \<noteq> []" and "length clip_durations = length video_clips"
    and "sorted_wrt (<) beat_times"
  shows "beat_sync_plan video_clips clip_durations beat_times audio_duration =
           Inr (spec_round_robin_plan video_clips clip_durations beat_times audio_duration)
         \<and> (\<forall>k<num_windows beat_times. clip_index_at beat_times audio_duration k = k)"
  using strict_beats_round_robin[OF assms] strict_beats_clip_index[OF assms(3)] by blast

lemma beats9_spec_plan:
  "spec_round_robin_plan [[''a.mp4''], [''b.mp4'']] [3, 3] beats9 5 =
        [\<lparr>clip = [''a.mp4''], start_time = 0, duration = 2, output_start = 0\<rparr>,
         \<lparr>clip = [''b.mp4''], start_time = 0, duration = 2, output_start = 2\<rparr>,
         \<lparr>clip = [''a.mp4''], start_time = 0, duration = 1, output_start = 4\<rparr>]"
proof -
  have u: "[0..<3] = [0, 1, 2]" by (simp add: upt_rec)
  have m: "(2::nat) mod Suc (Suc 0) = 0" by presburger
  show ?thesis
    unfolding spec_round_robin_plan_def beats9_windows u
    by (simp add: window_segments_def beats9_window_durations m)
       (simp add: window_start_def beats9_def beats_per_clip_def)
qed

text \<open>
  C4, witness: on the nine regular beats with five seconds of audio the loop enters the
  three windows with the indices 0, 1, 2 and they get the clips 0, 1, 0.
\<close>

theorem beat_plan_round_robin_witness:
  "[[''a.mp4''], [''b.mp4'']] \<noteq> [] \<and> length [3, 3::real] = length [[''a.mp4''], [''b.mp4'']]
   \<and> sorted_wrt (<) beats9
   \<and> num_windows beats9 = 3
   \<and> clip_index_at beats9 5 0 = 0 \<and> clip_index_at beats9 5 1 = 1
   \<and> clip_index_at beats9 5 2 = 2
   \<and> beat_sync_plan [[''a.mp4''], [''b.mp4'']] [3, 3] beats9 5 =
        Inr [\<lparr>clip = [''a.mp4''], start_time = 0, duration = 2, output_start = 0\<rparr>,
             \<lparr>clip = [''b.mp4''], start_time = 0, duration = 2, output_start = 2\<rparr>,
             \<lparr>clip = [''a.mp4''], start_time = 0, duration = 1, output_start = 4\<rparr>]"
proof -
  have c: "[[''a.mp4''], [''b.mp4'']] \<noteq> []"
    "length [3, 3::real] = length [[''a.mp4''], [''b.mp4'']]" by simp_all
  have s: "sorted_wrt (<) beats9" by (simp add: beats9_def)
  note t = beat_plan_round_robin[OF c s, of 5]
  from t have plan: "beat_sync_plan [[''a.mp4''], [''b.mp4'']] [3, 3] beats9 5 =
      Inr (spec_round_robin_plan [[''a.mp4''], [''b.mp4'']] [3, 3] beats9 5)" by (rule conjunct1)
  from t have idx: "\<forall>k<num_windows beats9. clip_index_at beats9 5 k = k" by (rule conjunct2)
  have i0: "clip_index_at beats9 5 0 = 0" using idx by (simp add: beats9_windows)
  have i1: "clip_index_at beats9 5 1 = 1" using idx by (simp add: beats9_windows)
  have i2: "clip_index_at beats9 5 2 = 2" using idx by (simp add: beats9_windows)
  show ?thesis
    using c s i0 i1 i2 plan by (simp only: beats9_spec_plan beats9_windows simp_thms)
qed

text \<open>
  C5 (amended). For the nine beats at 0.0, 0.5, ..., 4.0 seconds and two clips of 3.0
  seconds each, beat-synced planning with four beats per clip gives the segments of the
  windows \<open>[0, 2.0)\<close> and \<open>[2.0, 4.0)\<close> from clip 0 and clip 1, and exactly these two when the
  audio is no longer than 4.0 seconds; when the audio is longer, the ninth beat opens a
  final partial window that runs to the end of the audio and gives a third segment from
  clip 0, starting at 4.0 and lasting \<open>min(3.0, audio_duration - 4.0)\<close>.
\<close>

theorem scenario_b_plan:
  "beat_sync_plan [[''clip0.mp4''], [''clip1.mp4'']] [3, 3] beats9 audio_duration =
     Inr (if audio_duration \<le> 4
          then [\<lparr>clip = [''clip0.mp4''], start_time = 0, duration = 2, output_start = 0\<rparr>,
                \<lparr>clip = [''clip1.mp4''], start_time = 0, duration = 2, output_start = 2\<rparr>]
          else [\<lparr>clip = [''clip0.mp4''], start_time = 0, duration = 2, output_start = 0\<rparr>,
                \<lparr>clip = [''clip1.mp4''], start_time = 0, duration = 2, output_start = 2\<rparr>,
                \<lparr>clip = [''clip0.mp4''], start_time = 0,
                  duration = min 3 (audio_duration - 4), output_start = 4\<rparr>])"
  by (simp add: beat_sync_plan_def beats9_def beats_per_clip_def Let_def)

text \<open>C5, witness: with exactly four seconds of audio the plan has the two segments.\<close>

theorem scenario_b_plan_witness:
  "beat_sync_plan [[''clip0.mp4''], [''clip1.mp4'']] [3, 3] beats9 4 =
     Inr [\<lparr>clip = [''clip0.mp4''], start_time = 0, duration = 2, output_start = 0\<rparr>,
          \<lparr>clip = [''clip1.mp4''], start_time = 0, duration = 2, output_start = 2\<rparr>]"
  using scenario_b_plan[of 4] by simp

text \<open>
  C5, counterexample: with five seconds of audio the plan has three segments, the last one
  from the ninth beat to the end of the audio.
\<close>

theorem scenario_b_plan_counterexample:
  "beat_sync_plan [[''clip0.mp4''], [''clip1.mp4'']] [3, 3] beats9 5 =
     Inr [\<lparr>clip = [''clip0.mp4''], start_time = 0, duration = 2, output_start = 0\<rparr>,
          \<lparr>clip = [''clip1.mp4''], start_time = 0, duration = 2, output_start = 2\<rparr>,
          \<lparr>clip = [''clip0.mp4''], start_time = 0, duration = 1, output_start = 4\<rparr>]
   \<and> beat_sync_plan [[''clip0.mp4''], [''clip1.mp4'']] [3, 3] beats9 5 \<noteq>
     Inr [\<lparr>clip = [''clip0.mp4''], start_time = 0, duration = 2, output_start = 0\<rparr>,
          \<lparr>clip = [''clip1.mp4''], start_time = 0, duration = 2, output_start = 2\<rparr>]"
  by (simp add: beat_sync_plan_def beats9_def beats_per_clip_def Let_def)
section \<open>Sequential planning: results\<close>

text \<open>
  C7. For 65.0 seconds of audio and three clips of 10.0, 20.0 and 5.0 seconds, sequential
  planning returns five segments of durations 10, 20, 5, 10 and 20, which sum to exactly
  65; the last one starts at 45 and is cut to the 20 seconds that remain, so it ends with
  the audio.
\<close>

theorem scenario_a_plan:
  "\<exists>clip_segments.
     sequential_fill_plan [[''c0.mp4''], [''c1.mp4''], [''c2.mp4'']] [10, 20, 5] 65
       = Some (Inr clip_segments)
     \<and> length clip_segments = 5
     \<and> map clip clip_segments =
         [[''c0.mp4''], [''c1.mp4''], [''c2.mp4''], [''c0.mp4''], [''c1.mp4'']]
     \<and> map duration clip_segments = [10, 20, 5, 10, 20]
     \<and> map output_start clip_segments = [0, 10, 30, 35, 45]
     \<and> sum_list (map duration clip_segments) = 65
     \<and> duration (last clip_segments) = min 20 (65 - output_start (last clip_segments))
     \<and> output_start (last clip_segments) + duration (last clip_segments) = 65"
  by (simp add: sequential_fill_plan_def seq_loop.simps)

text \<open>
  While every clip duration is 0 and the audio has not been covered, a step of the loop
  leads to a state of the same kind, so no run from such a state returns.
\<close>

lemma seq_loop_zero_durations:
  assumes "seq_loop vc cd a t ci segs = Some y"
  shows "\<not> (vc \<noteq> [] \<and> length cd = length vc \<and> (\<forall>d \<in> set cd. d = 0) \<and> t < a)"
proof (rule seq_loop.raw_induct[where P = "\<lambda>(vc::path list) (cd::real list) (a::real) (t::real)
     (ci::nat) (segs::segment list) (y::exn + segment list).
     \<not> (vc \<noteq> [] \<and> length cd = length vc \<and> (\<forall>d \<in> set cd. d = 0) \<and> t < a)", OF _ assms])
  fix sl :: "path list \<Rightarrow> real list \<Rightarrow> real \<Rightarrow> real \<Rightarrow> nat \<Rightarrow> segment list
               \<Rightarrow> (exn + segment list) option"
    and vc :: "path list" and cd :: "real list" and a t :: real and ci :: nat
    and segs :: "segment list" and y :: "exn + segment list"
  assume IH: "\<And>vc cd a t ci segs y. sl vc cd a t ci segs = Some y \<Longrightarrow>
     \<not> (vc \<noteq> [] \<and> length cd = length vc \<and> (\<forall>d \<in> set cd. d = 0) \<and> (t::real) < a)"
  let ?n = "length vc"
  assume step: "(if t < a then
        (if ?n = 0 then Some (Inl ZeroDivisionError)
         else if \<not> ci mod ?n < length cd
           then Some (Inl IndexError)
         else (let clip = vc ! (ci mod ?n);
                   clip_duration = cd ! (ci mod ?n);
                   remaining = a - t;
                   use_duration = min clip_duration remaining
               in sl vc cd a
                    (t + use_duration) (ci + 1)
                    (segs @
                       [\<lparr>clip = clip, start_time = 0, duration = use_duration,
                         output_start = t\<rparr>])))
      else Some (Inr segs)) = Some y"
  show "\<not> (vc \<noteq> [] \<and> length cd = length vc \<and> (\<forall>d \<in> set cd. d = 0) \<and> t < a)"
  proof
    assume h: "vc \<noteq> [] \<and> length cd = length vc \<and> (\<forall>d\<in>set cd. d = 0) \<and> t < a"
    then have idx: "ci mod length vc < length cd" by simp
    then have z: "cd ! (ci mod length vc) = 0" using h by (metis nth_mem)
    have "min (cd ! (ci mod length vc)) (a - t) = 0" unfolding z using h by simp
    with step h idx have "\<exists>segs'. sl vc cd a t (ci + 1) segs' = Some y"
      by (auto simp add: Let_def)
    then obtain segs' where "sl vc cd a t (ci + 1) segs' = Some y" by blast
    from IH[OF this] h show False by simp
  qed
qed

lemma sequential_fill_zero_durations:
  assumes "video_clips \<noteq> []" and "length clip_durations = length video_clips"
    and "\<forall>d \<in> set clip_durations. d = 0" and "0 < audio_duration"
  shows "sequential_fill_plan video_clips clip_durations audio_duration = None"
proof (cases "sequential_fill_plan video_clips clip_durations audio_duration")
  case None
  then show ?thesis .
next
  case (Some y)
  then have "seq_loop video_clips clip_durations audio_duration 0 0 [] = Some y"
    by (simp add: sequential_fill_plan_def)
  from seq_loop_zero_durations[OF this] assms show ?thesis by simp
qed

text \<open>
  With positive clip durations the loop does return: each step covers the rest of the
  audio or at least the shortest clip.
\<close>

lemma seq_loop_terminates:
  assumes "vc \<noteq> []" and "length cd = length vc" and "0 < dmin" and "\<forall>d \<in> set cd. dmin \<le> d"
  shows "a - t \<le> real n * dmin \<Longrightarrow> \<exists>segs'. seq_loop vc cd a t ci segs = Some (Inr segs')"
proof (induction n arbitrary: t ci segs)
  case 0
  then have "\<not> t < a" by simp
  then show ?case by (subst seq_loop.simps) simp
next
  case (Suc n)
  show ?case
  proof (cases "t < a")
    case False
    then show ?thesis by (subst seq_loop.simps) simp
  next
    case True
    let ?d = "cd ! (ci mod length vc)"
    have idx: "ci mod length vc < length cd" using assms(1,2) by simp
    then have d: "dmin \<le> ?d" using assms(4) by (metis nth_mem)
    let ?u = "min ?d (a - t)"
    have "a - (t + ?u) \<le> real n * dmin"
    proof (cases "?d \<le> a - t")
      case True
      then have "?u = ?d" by simp
      moreover have "a - t \<le> real n * dmin + dmin" using Suc.prems by (simp add: algebra_simps)
      ultimately show ?thesis using d by simp
    next
      case False
      then have "?u = a - t" by simp
      then show ?thesis using assms(3) by simp
    qed
    from Suc.IH[OF this]
    obtain segs' where "seq_loop vc cd a (t + ?u) (ci + 1)
        (segs @ [\<lparr>clip = vc ! (ci mod length vc), start_time = 0, duration = ?u,
                  output_start = t\<rparr>]) = Some (Inr segs')"
      by blast
    then show ?thesis
      using True idx assms(1) by (subst seq_loop.simps) (simp add: Let_def)
  qed
qed

lemma sequential_fill_terminates:
  assumes "video_clips \<noteq> []" and "length clip_durations = length video_clips"
    and "\<forall>d \<in> set clip_durations. 0 < d"
  shows "\<exists>clip_segments.
           sequential_fill_plan video_clips clip_durations audio_duration = Some (Inr clip_segments)"
proof -
  let ?dmin = "Min (set clip_durations)"
  have ne: "clip_durations \<noteq> []" using assms(1,2) by auto
  then have pos: "0 < ?dmin" using assms(3) by simp
  have le: "\<forall>d \<in> set clip_durations. ?dmin \<le> d" by simp
  obtain n where "audio_duration / ?dmin \<le> real n"
    using real_nat_ceiling_ge by blast
  then have "audio_duration - 0 \<le> real n * ?dmin"
    using pos by (simp add: pos_divide_le_eq)
  from seq_loop_terminates[OF assms(1,2) pos le this]
  show ?thesis by (simp add: sequential_fill_plan_def)
qed

text \<open>
  C6 (the code at the failing input). One clip whose probe failed (duration 0) and one
  second of audio: every step takes \<open>min(0, remaining) = 0\<close> seconds, \<open>current_time\<close> stays 0
  and the loop never reaches \<open>current_time \<ge> audio_duration\<close>.
\<close>

theorem sequential_fill_diverges:
  "sequential_fill_plan [[''a.mp4'']] [0] 1 = None"
  by (rule sequential_fill_zero_durations) simp_all

section \<open>Assembly: results\<close>

lemma matched_video_duration_long:
  assumes "audio_duration \<le> concat_duration segment_durations"
  shows "matched_video_duration segment_durations sz audio_duration = audio_duration"
proof -
  have "\<not> concat_duration segment_durations < audio_duration" using assms by simp
  then show ?thesis
    using assms by (simp add: matched_video_duration_def Let_def limit_duration_def)
qed

lemma matched_video_duration_le:
  "matched_video_duration segment_durations sz audio_duration \<le> audio_duration"
proof (cases "concat_duration segment_durations < audio_duration")
  case False
  then show ?thesis by (simp add: matched_video_duration_long)
next
  case True
  show ?thesis
  proof (cases "loop_count audio_duration (concat_duration segment_durations) sz")
    case (Inl e)
    moreover have "concat_duration segment_durations \<le> audio_duration" using True by simp
    ultimately show ?thesis using True
      by (auto simp add: matched_video_duration_def Let_def)
  next
    case (Inr n)
    moreover have "concat_duration segment_durations \<le> audio_duration" using True by simp
    ultimately show ?thesis using True
      by (auto simp add: matched_video_duration_def Let_def limit_duration_def)
  qed
qed

lemma replicate_5: "replicate 5 x = [x, x, x, x, x]"
  by (simp add: eval_nat_numeral)

text \<open>
  C2 (the code at the failing input). One beat at 0, ten seconds of audio and one clip of
  half a second: the plan is a single segment of half a second; the combined video is 9.5
  seconds short, so \<open>int(9.5 / 2) + 1 = 5\<close> copies of the final segment are appended, and
  the video handed to the muxer lasts 3 seconds, not 10, while the operation returns
  \<open>True\<close>.
\<close>

theorem padding_falls_short:
  "beat_sync_plan [[''short.mp4'']] [1 / 2] [0] 10 =
     Inr [\<lparr>clip = [''short.mp4''], start_time = 0, duration = 1 / 2, output_start = 0\<rparr>]
   \<and> matched_video_duration [1 / 2] 100000 10 = 3
   \<and> map_option fst (create_mv_from_clips short_env [[''short.mp4'']] True) = Some (Inr True)"
proof -
  have run: "map_option fst (create_mv_from_clips short_env [[''short.mp4'']] True)
               = Some (Inr True)"
    by (simp add: create_mv_from_clips_def create_mv_body_def short_env_def probe_durations_def
        load_beat_data_def beat_sync_plan_def beats_per_clip_def Let_def render_guarded_def
        render_segments_def match_step_def)
  have plan: "beat_sync_plan [[''short.mp4'']] [1 / 2] [0] 10 =
     Inr [\<lparr>clip = [''short.mp4''], start_time = 0, duration = 1 / 2, output_start = 0\<rparr>]"
    by (simp add: beat_sync_plan_def beats_per_clip_def Let_def)
  have "\<exists>n. loop_count 10 (concat_duration [1 / 2]) 100000 = Inr n"
    by (simp add: loop_count_def)
  then obtain n where lc: "loop_count 10 (concat_duration [1 / 2]) 100000 = Inr n" ..
  have "py_int ((10 - concat_duration [1 / 2]) / 2) = 4"
    by (simp add: py_int_def concat_duration_def)
  then have cnt: "range_len (py_int ((10 - concat_duration [1 / 2]) / 2) + 1) = 5"
    by (simp add: range_len_def)
  have "matched_video_duration [1 / 2] 100000 10 =
          limit_duration 10 (concat_duration ([1 / 2] @ replicate 5 (1 / 2)))"
    unfolding matched_video_duration_def Let_def cnt lc
    by (simp add: concat_duration_def)
  also have "\<dots> = 3"
    by (simp add: replicate_5 concat_duration_def limit_duration_def)
  finally show ?thesis using plan run by simp
qed

text \<open>
  What holds of every run of the operation that returns, with a log sink that does not
  raise and enough memory for the plan.
\<close>

lemma create_mv_never_raises:
  assumes "create_mv_from_clips env video_clips sync_to_beat = Some (r, lg)"
  shows "\<exists>b. r = Inr b"
  using assms
  by (auto simp: create_mv_from_clips_def split: option.splits sum.splits prod.splits)

lemma render_segments_True:
  assumes "render_segments env audio_duration clip_segments = (Inr True, lg)"
  shows "output_exists env \<and> 0 < output_size env"
  using assms
  by (auto simp: render_segments_def Let_def split: sum.splits option.splits if_splits)

lemma render_guarded_True:
  assumes "render_guarded env audio_duration clip_segments = (Inr True, lg)"
  shows "output_exists env \<and> 0 < output_size env"
  using assms render_segments_True
  by (auto simp: render_guarded_def split: sum.splits prod.splits if_splits)

lemma create_mv_body_True:
  assumes "create_mv_body env video_clips sync_to_beat = Some (Inr True, lg)"
  shows "output_exists env \<and> 0 < output_size env"
  using assms render_guarded_True
  by (auto simp: create_mv_body_def Let_def split: sum.splits option.splits if_splits prod.splits)

lemma create_mv_true_only_if_output:
  assumes "create_mv_from_clips env video_clips sync_to_beat = Some (Inr True, lg)"
  shows "output_exists env \<and> 0 < output_size env"
  using assms create_mv_body_True
  by (auto simp: create_mv_from_clips_def split: option.splits sum.splits prod.splits)

lemma render_segments_False:
  assumes "render_segments env audio_duration clip_segments = (Inr False, lg)"
  shows "lg \<noteq> [] \<and> fst (last lg) = ERROR"
  using assms
  by (auto simp: render_segments_def Let_def split: sum.splits option.splits if_splits)

lemma render_guarded_False:
  assumes "render_guarded env audio_duration clip_segments = (Inr False, lg)"
  shows "lg \<noteq> [] \<and> fst (last lg) = ERROR"
  using assms render_segments_False
  by (auto simp: render_guarded_def split: sum.splits prod.splits if_splits)

lemma create_mv_body_False:
  assumes "create_mv_body env video_clips sync_to_beat = Some (Inr False, lg)"
  shows "lg \<noteq> [] \<and> fst (last lg) = ERROR"
  using assms render_guarded_False
  by (auto simp: create_mv_body_def Let_def split: sum.splits option.splits if_splits prod.splits)

lemma create_mv_false_is_logged:
  assumes "create_mv_from_clips env video_clips sync_to_beat = Some (Inr False, lg)"
  shows "lg \<noteq> [] \<and> fst (last lg) = ERROR"
  using assms create_mv_body_False
  by (auto simp: create_mv_from_clips_def split: option.splits sum.splits prod.splits)

text \<open>
  The operation returns in beat-synced mode, and in sequential mode when every clip probes
  to a positive duration.
\<close>

lemma sequential_fill_no_clips:
  "\<exists>r. sequential_fill_plan [] [] audio_duration = Some r"
  by (simp add: sequential_fill_plan_def seq_loop.simps)

lemma probe_durations_positive:
  assumes "\<forall>clip \<in> set video_clips. \<exists>d. probe clip = Inr d \<and> 0 < d"
  shows "\<forall>d \<in> set (probe_durations probe video_clips). 0 < d"
  using assms by (auto simp: probe_durations_def)

lemma create_mv_returns:
  assumes "sync_to_beat \<and> fst (load_beat_data (beats_csv env)) \<noteq> None
           \<or> (\<forall>clip \<in> set video_clips. \<exists>d. probe_clip env clip = Inr d \<and> 0 < d)"
  shows "\<exists>b lg. create_mv_from_clips env video_clips sync_to_beat = Some (Inr b, lg)"
proof (cases "sync_to_beat \<and> fst (load_beat_data (beats_csv env)) \<noteq> None")
  case True
  then show ?thesis
    by (auto simp: create_mv_from_clips_def create_mv_body_def Let_def
        split: option.splits sum.splits prod.splits)
next
  case False
  with assms have pos: "\<forall>clip \<in> set video_clips. \<exists>d. probe_clip env clip = Inr d \<and> 0 < d"
    by blast
  let ?cd = "probe_durations (probe_clip env) video_clips"
  have "\<exists>r. sequential_fill_plan video_clips ?cd a = Some r" for a
  proof (cases "video_clips = []")
    case True
    then show ?thesis using sequential_fill_no_clips by (simp add: probe_durations_def)
  next
    case ne: False
    have "length ?cd = length video_clips" by (simp add: probe_durations_def)
    from sequential_fill_terminates[OF ne this probe_durations_positive[OF pos], of a]
    show ?thesis by blast
  qed
  then obtain r where r: "sequential_fill_plan video_clips ?cd
      (case probe_audio env of Inr d \<Rightarrow> d | Inl e \<Rightarrow> 0) = Some r" by blast
  show ?thesis
    using r False
    by (auto simp: create_mv_from_clips_def create_mv_body_def Let_def
        split: option.splits sum.splits prod.splits)
qed

text \<open>
  C8 (the code at the failing input). Sequential mode, one second of audio, one clip whose
  probe fails: the planning loop never ends, so the operation returns neither \<open>True\<close> nor
  \<open>False\<close>.
\<close>

theorem create_mv_never_returns:
  "create_mv_from_clips stuck_env [[''a.mp4'']] False = None"
proof -
  have "sequential_fill_plan [[''a.mp4'']] [0] 1 = None"
    by (rule sequential_fill_zero_durations) simp_all
  then show ?thesis
    by (simp add: create_mv_from_clips_def create_mv_body_def stuck_env_def probe_durations_def)
qed

section \<open>The watcher: results\<close>

lemma on_created_processed:
  assumes "p \<in> fst (on_created fs processed ev)"
  shows "p \<in> processed \<or>
         \<not> (name_of (parent p) = input_audio_name \<and>
            lower (suffix_of (name_of p)) \<notin> valid_audio_extensions)"
  using assms by (auto simp: on_created_def Let_def split: if_splits)

text \<open>A handler never records a file of the audio intake folder with an extension it rejects.\<close>

lemma handler_state_accepts_only_valid_audio:
  assumes "p \<in> handler_state history"
  shows "\<not> (name_of (parent p) = input_audio_name \<and>
            lower (suffix_of (name_of p)) \<notin> valid_audio_extensions)"
  using assms
proof (induction history)
  case Nil
  then show ?case by simp
next
  case (Cons h history)
  from Cons.prems have "p \<in> fst (on_created (fst h) (handler_state history) (snd h))" by simp
  from on_created_processed[OF this] Cons.IH show ?case by blast
qed

lemma txt_ext: "lower (suffix_of ''Notes.TXT'') = ''.txt''"
  by (simp add: suffix_of_def lower_char_def)

text \<open>
  C10. For every file event, after any history of events of the handler, on a file that
  exists in the audio intake folder and whose lower-cased extension is outside the audio
  allow-list: the handler starts no worker (no analysis, no stage transition), makes exactly
  one log entry, of level ERROR, and leaves \<open>processed_files\<close> as it was; the handler itself
  has no operation on the file system, so the file stays at its path.
\<close>

theorem unsupported_audio_rejected:
  assumes "\<not> is_directory ev"
    and "fs (src_path ev) \<noteq> None"
    and "name_of (parent (src_path ev)) = input_audio_name"
    and "lower (suffix_of (name_of (src_path ev))) \<notin> valid_audio_extensions"
  shows "on_created fs (handler_state history) ev =
           (handler_state history, [(ERROR, ''unsupported audio file format'')], [])"
proof -
  have "src_path ev \<notin> handler_state history"
    using handler_state_accepts_only_valid_audio[of "src_path ev" history] assms(3,4) by blast
  then show ?thesis using assms by (simp add: on_created_def Let_def)
qed

text \<open>
  C10, witness: \<open>Notes.TXT\<close> in the audio intake folder, reported a second time after a first
  event for the same file.
\<close>

theorem unsupported_audio_rejected_witness:
  "\<not> is_directory txt_event
   \<and> txt_fs (src_path txt_event) \<noteq> None
   \<and> name_of (parent (src_path txt_event)) = input_audio_name
   \<and> lower (suffix_of (name_of (src_path txt_event))) \<notin> valid_audio_extensions
   \<and> on_created txt_fs (handler_state [(txt_fs, txt_event)]) txt_event =
        ({}, [(ERROR, ''unsupported audio file format'')], [])"
proof -
  have a: "\<not> is_directory txt_event" by (simp add: txt_event_def)
  have b: "txt_fs (src_path txt_event) \<noteq> None" by (simp add: txt_event_def txt_fs_def)
  have c: "name_of (parent (src_path txt_event)) = input_audio_name"
    by (simp add: txt_event_def name_of_def parent_def)
  have d: "lower (suffix_of (name_of (src_path txt_event))) \<notin> valid_audio_extensions"
    by (simp add: txt_event_def name_of_def txt_ext valid_audio_extensions_def)
  have e: "handler_state [(txt_fs, txt_event)] = {}"
    using a b c d by (simp add: on_created_def Let_def)
  from unsupported_audio_rejected[of txt_event txt_fs "[(txt_fs, txt_event)]", OF a b c d]
    a b c d e
  show ?thesis by simp
qed

section \<open>The finalize stage: results\<close>

declare str_nat.simps [simp del]

lemma digit_char_inj:
  assumes "a < 10" and "b < 10" and "digit_char a = digit_char b"
  shows "a = b"
proof -
  have d: "distinct ''0123456789''" by simp
  have l: "length ''0123456789'' = 10" by simp
  from assms show ?thesis
    unfolding digit_char_def using nth_eq_iff_index_eq[OF d, of a b] l by simp
qed

lemma str_nat_nonempty: "str_nat n \<noteq> []"
  by (subst str_nat.simps) simp

lemma str_nat_inj: "str_nat n = str_nat m \<Longrightarrow> n = m"
proof (induction n arbitrary: m rule: str_nat.induct)
  case (1 n)
  show ?case
  proof (cases "n < 10")
    case n: True
    show ?thesis
    proof (cases "m < 10")
      case True
      with n "1.prems" have "digit_char n = digit_char m"
        by (simp add: str_nat.simps[of n] str_nat.simps[of m])
      with n True show ?thesis by (rule digit_char_inj)
    next
      case False
      with n "1.prems" have "str_nat (m div 10) = []"
        by (simp add: str_nat.simps[of n] str_nat.simps[of m])
      then show ?thesis by (simp add: str_nat_nonempty)
    qed
  next
    case n: False
    show ?thesis
    proof (cases "m < 10")
      case True
      with n "1.prems" have "str_nat (n div 10) = []"
        by (simp add: str_nat.simps[of n] str_nat.simps[of m])
      then show ?thesis by (simp add: str_nat_nonempty)
    next
      case False
      with n "1.prems" have e: "str_nat (n div 10) = str_nat (m div 10)"
        and d: "digit_char (n mod 10) = digit_char (m mod 10)"
        by (simp_all add: str_nat.simps[of n] str_nat.simps[of m])
      from "1.IH"[OF n e] have "n div 10 = m div 10" .
      moreover have "n mod 10 = m mod 10"
        by (rule digit_char_inj[OF _ _ d]) simp_all
      ultimately show ?thesis by (metis div_mult_mod_eq)
    qed
  qed
qed

lemma free_path_reaches:
  assumes "fs (candidate k) = None"
  shows "c \<le> k \<Longrightarrow>
         \<exists>q. free_path fs candidate p c = Some q \<and> fs q = None \<and>
             (q = p \<or> (\<exists>j\<ge>c. q = candidate j))"
proof (induction "k - c" arbitrary: c p)
  case 0
  then have ck: "c = k" by simp
  show ?case
  proof (cases "fs p = None")
    case True
    then show ?thesis by (subst free_path.simps) simp
  next
    case False
    have "free_path fs candidate (candidate k) (k + 1) = Some (candidate k)"
      using assms by (subst free_path.simps) simp
    then have "free_path fs candidate p c = Some (candidate k)"
      using False ck by (subst free_path.simps) simp
    then show ?thesis using assms ck by auto
  qed
next
  case (Suc n)
  show ?case
  proof (cases "fs p = None")
    case True
    then show ?thesis by (subst free_path.simps) simp
  next
    case False
    from Suc have "n = k - (c + 1)" and "c + 1 \<le> k" by simp_all
    from Suc(1)[OF this, of "candidate c"]
    obtain q where q: "free_path fs candidate (candidate c) (c + 1) = Some q" "fs q = None"
      "q = candidate c \<or> (\<exists>j\<ge>c + 1. q = candidate j)" by blast
    have "free_path fs candidate p c = Some q"
      using False q(1) by (subst free_path.simps) simp
    moreover have "\<exists>j\<ge>c. q = candidate j"
    proof -
      from q(3) consider "q = candidate c" | j where "c + 1 \<le> j" "q = candidate j" by blast
      then show ?thesis
      proof cases
        case 1
        then show ?thesis by blast
      next
        case 2
        then have "c \<le> j" by simp
        with 2 show ?thesis by blast
      qed
    qed
    ultimately show ?thesis using q(2) by blast
  qed
qed

lemma free_path_returns:
  assumes "finite (dom fs)" and "inj candidate"
  shows "\<exists>q. free_path fs candidate p c = Some q \<and> fs q = None \<and>
             (q = p \<or> (\<exists>j\<ge>c. q = candidate j))"
proof -
  have "\<exists>k\<ge>c. fs (candidate k) = None"
  proof (rule ccontr)
    assume "\<not> (\<exists>k\<ge>c. fs (candidate k) = None)"
    then have "candidate ` {c..} \<subseteq> dom fs" by auto
    then have "finite (candidate ` {c..})" using assms(1) by (rule finite_subset)
    moreover have "inj_on candidate {c..}" using assms(2) by (rule inj_on_subset) simp
    ultimately have "finite {c..}" by (rule finite_imageD)
    then show False by (simp add: infinite_Ici)
  qed
  then obtain k where "c \<le> k" "fs (candidate k) = None" by blast
  from free_path_reaches[of fs candidate k c p, OF this(2) this(1)] show ?thesis .
qed

lemma mkdir_parents_result:
  assumes "mkdir_parents flt fs p = Inr fs1"
  shows "fs1 = (\<lambda>q. if prefix q p then Some Dir else fs q)"
    and "\<And>q. prefix q p \<Longrightarrow> \<not> is_file (fs q)"
  using assms by (auto simp: mkdir_parents_def split: if_splits)

lemma mkdir_parents_keeps:
  assumes "mkdir_parents flt fs p = Inr fs1" and "fs q \<noteq> None"
  shows "fs1 q = fs q"
proof (cases "prefix q p")
  case False
  then show ?thesis using mkdir_parents_result(1)[OF assms(1)] by simp
next
  case True
  from assms(2) obtain n where n: "fs q = Some n" by blast
  have "n = Dir"
  proof (cases n)
    case (File bytes)
    then show ?thesis using mkdir_parents_result(2)[OF assms(1) True] n
      by (simp add: is_file_def)
  qed simp
  then show ?thesis using True n mkdir_parents_result(1)[OF assms(1)] by simp
qed

lemma mkdir_parents_finite:
  assumes "mkdir_parents flt fs p = Inr fs1" and "finite (dom fs)"
  shows "finite (dom fs1)"
proof -
  have "dom fs1 \<subseteq> dom fs \<union> set (prefixes p)"
    using mkdir_parents_result(1)[OF assms(1)] by (auto split: if_splits)
  moreover have "finite (dom fs \<union> set (prefixes p))" using assms(2) by simp
  ultimately show ?thesis by (rule finite_subset)
qed

lemma write_metadata_result:
  assumes "finite (dom fs)"
  shows "\<exists>fs' lg'. write_metadata flt xml fs lg set_folder video_name = Some (fs', lg') \<and>
           (\<forall>p. fs p \<noteq> None \<or> parent p \<noteq> set_folder \<longrightarrow> fs' p = fs p)"
proof -
  let ?cand = "\<lambda>counter. set_folder @ [video_name @ ''_metadata('' @ str_nat counter @ '').xml'']"
  have "inj ?cand" by (auto simp: inj_def dest: str_nat_inj)
  from free_path_returns[OF assms this, of "set_folder @ [video_name @ ''_metadata.xml'']" 1]
  obtain xml_path where x: "free_path fs ?cand (set_folder @ [video_name @ ''_metadata.xml'']) 1
      = Some xml_path" "fs xml_path = None"
      "xml_path = set_folder @ [video_name @ ''_metadata.xml''] \<or> (\<exists>j\<ge>1. xml_path = ?cand j)"
    by blast
  from x(3) have "parent xml_path = set_folder" by (auto simp: parent_def)
  then show ?thesis
    unfolding write_metadata_def x(1) using x(2) by auto
qed

lemma write_metadata_frame:
  assumes "finite (dom fs)"
  shows "\<exists>fs' lg'. write_metadata flt xml fs lg set_folder video_name = Some (fs', lg') \<and>
           (\<forall>p. fs p \<noteq> None \<longrightarrow> fs' p = fs p)"
  using write_metadata_result[OF assms, of flt xml lg set_folder video_name] by blast

text \<open>
  C9. When the finalize stage is invoked on a path inside a used folder, in a file system
  with finitely many entries, it returns, and whatever happens on the way (a failed probe,
  a failed \<open>mkdir\<close> or copy) the file at that path is what it was, as is every other entry
  that existed: nothing is moved. When the path holds a non-empty regular file, no step
  fails and no regular file blocks the final-assets folder, the bytes of the original are
  afterwards also at a new path inside a set folder directly below the final-assets folder.
\<close>

theorem archived_original_is_copied:
  assumes archived: "used_name \<in> set file_path" and fin: "finite (dom fs)"
  shows "\<exists>fs' lg.
           finalize_assets base_dir flt xml fs file_path = Some (fs', lg)
           \<and> fs' file_path = fs file_path
           \<and> (\<forall>p. fs p \<noteq> None \<longrightarrow> fs' p = fs p)
           \<and> (\<forall>bytes.
                 fs file_path = Some (File bytes) \<and> bytes \<noteq> []
                 \<and> \<not> probe_fails flt \<and> \<not> mkdir_fails flt \<and> \<not> copy_fails flt
                 \<and> (\<forall>q \<in> set (prefixes (final_assets_dir base_dir)). \<not> is_file (fs q))
                 \<longrightarrow> (\<exists>dest. parent (parent dest) = final_assets_dir base_dir
                             \<and> fs dest = None \<and> fs' dest = Some (File bytes)))"
proof (cases "fs file_path")
  case None
  then show ?thesis by (simp add: finalize_assets_def)
next
  case (Some n)
  show ?thesis
  proof (cases "st_size n = 0 \<or> probe_fails flt \<or> n = Dir")
    case True
    then show ?thesis using Some
      by (auto simp: finalize_assets_def st_size_def split: node.splits)
  next
    case False
    then obtain bytes where n: "n = File bytes" and ne: "bytes \<noteq> []"
      and probe: "\<not> probe_fails flt"
      by (cases n) (auto simp: st_size_def)
    let ?video_name = "stem_of (name_of file_path)"
    let ?fad = "final_assets_dir base_dir"
    let ?cand1 = "\<lambda>counter. ?fad @ [?video_name @ ''('' @ str_nat counter @ '')'']"
    have "inj ?cand1" by (auto simp: inj_def dest: str_nat_inj)
    from free_path_returns[OF fin this, of "?fad @ [?video_name]" 1]
    obtain set_folder where sf: "free_path fs ?cand1 (?fad @ [?video_name]) 1 = Some set_folder"
      "fs set_folder = None"
      "set_folder = ?fad @ [?video_name] \<or> (\<exists>j\<ge>1. set_folder = ?cand1 j)" by blast
    then have sf_parent: "parent set_folder = ?fad" by (auto simp: parent_def)
    show ?thesis
    proof (cases "mkdir_parents flt fs set_folder")
      case (Inl e)
      have "\<not> (\<not> mkdir_fails flt \<and> (\<forall>q \<in> set (prefixes ?fad). \<not> is_file (fs q)))"
      proof
        assume a: "\<not> mkdir_fails flt \<and> (\<forall>q \<in> set (prefixes ?fad). \<not> is_file (fs q))"
        have "prefixes set_folder = prefixes ?fad @ [set_folder]"
          using sf(3) by (auto simp: prefixes_snoc)
        with a sf(2) have "mkdir_parents flt fs set_folder \<noteq> Inl e"
          by (auto simp: mkdir_parents_def is_file_def)
        with Inl show False by simp
      qed
      then show ?thesis using Some n ne probe sf(1) Inl
        by (auto simp: finalize_assets_def st_size_def Let_def)
    next
      case (Inr fs1)
      note keeps1 = mkdir_parents_keeps[OF Inr]
      have fin1: "finite (dom fs1)" using Inr fin by (rule mkdir_parents_finite)
      have fs1_sf: "fs1 set_folder = Some Dir"
        using mkdir_parents_result(1)[OF Inr] by simp
      have fp1: "fs1 file_path = Some (File bytes)" using keeps1[of file_path] Some n by simp
      let ?stem = "stem_of (name_of file_path)"
      let ?suffix = "suffix_of (name_of file_path)"
      let ?cand2 = "\<lambda>counter. set_folder @ [numbered ?stem counter ?suffix]"
      have "inj ?cand2" by (auto simp: inj_def numbered_def dest: str_nat_inj)
      from free_path_returns[OF fin1 this, of "set_folder @ [name_of file_path]" 1]
      obtain dest where d: "free_path fs1 ?cand2 (set_folder @ [name_of file_path]) 1 = Some dest"
        "fs1 dest = None"
        "dest = set_folder @ [name_of file_path] \<or> (\<exists>j\<ge>1. dest = ?cand2 j)" by blast
      then have d_parent: "parent dest = set_folder" by (auto simp: parent_def)
      have d_fs: "fs dest = None"
      proof (rule ccontr)
        assume "fs dest \<noteq> None"
        from keeps1[OF this] this d(2) show False by simp
      qed
      have d_ne: "dest \<noteq> file_path" using d(2) fp1 by auto
      show ?thesis
      proof (cases "copy_fails flt")
        case True
        then have "copy2 flt fs1 file_path dest = Inl OSError"
          using fp1 by (simp add: copy2_def Let_def)
        then show ?thesis
          using Some n ne probe sf(1) Inr d(1) archived True keeps1 fp1
          by (auto simp: finalize_assets_def st_size_def Let_def)
      next
        case False
        let ?fs2 = "fs1(dest \<mapsto> File bytes)"
        have c: "copy2 flt fs1 file_path dest = Inr ?fs2"
          using fp1 d(2) d_parent fs1_sf d_ne False by (simp add: copy2_def Let_def)
        have fin2: "finite (dom ?fs2)" using fin1 by simp
        let ?lg = "[(INFO, ''finalize started''), (INFO, ''set folder created'')] @
                   [(INFO, ''video copied (from the used folder)'')]"
        from write_metadata_frame[OF fin2, of flt xml ?lg set_folder ?video_name]
        obtain fs' lg' where w: "write_metadata flt xml ?fs2 ?lg set_folder ?video_name
            = Some (fs', lg')" "\<forall>p. ?fs2 p \<noteq> None \<longrightarrow> fs' p = ?fs2 p" by blast
        have fin_eq: "finalize_assets base_dir flt xml fs file_path = Some (fs', lg')"
          using Some n ne probe sf(1) Inr d(1) archived c w(1)
          by (simp add: finalize_assets_def st_size_def Let_def)
        have keep: "fs' p = fs p" if "fs p \<noteq> None" for p
        proof -
          have "p \<noteq> dest" using that d_fs by auto
          moreover have "fs1 p = fs p" using keeps1[OF that] .
          ultimately show ?thesis using w(2) that by simp
        qed
        have "fs' dest = Some (File bytes)" using w(2) by simp
        moreover have "parent (parent dest) = ?fad" using d_parent sf_parent by simp
        ultimately show ?thesis using fin_eq keep Some n d_fs by auto
      qed
    qed
  qed
qed

text \<open>C9, witness: \<open>take1.mp4\<close> in the used folder of the lip-sync stage.\<close>

theorem archived_original_is_copied_witness:
  "used_name \<in> set archived_path \<and> finite (dom archived_fs)
   \<and> archived_fs archived_path = Some (File [1, 2, 3])
   \<and> (\<exists>fs' lg.
         finalize_assets [''project''] no_faults [60, 77, 86] archived_fs archived_path
           = Some (fs', lg)
         \<and> fs' archived_path = Some (File [1, 2, 3])
         \<and> (\<exists>dest. parent (parent dest) = final_assets_dir [''project'']
                    \<and> archived_fs dest = None \<and> fs' dest = Some (File [1, 2, 3])))"
proof -
  have a: "used_name \<in> set archived_path" by (simp add: archived_path_def)
  have f: "finite (dom archived_fs)" by (simp add: archived_fs_def)
  have p: "archived_fs archived_path = Some (File [1, 2, 3])" by (simp add: archived_fs_def)
  have b: "\<forall>q \<in> set (prefixes (final_assets_dir [''project''])). \<not> is_file (archived_fs q)"
    by (simp add: final_assets_dir_def archived_fs_def archived_path_def is_file_def)
  have n: "\<not> probe_fails no_faults \<and> \<not> mkdir_fails no_faults \<and> \<not> copy_fails no_faults"
    by (simp add: no_faults_def)
  from archived_original_is_copied[OF a f, of "[''project'']" no_faults "[60, 77, 86]"] p b n a f
  show ?thesis by auto
qed

text \<open>
  The other branch: a non-empty regular file outside every used folder, in a project whose
  folders exist and with no failing step, is moved into the used folder of the lip-sync
  stage and copied from there into the set folder.
\<close>

lemma stage_folders_differ: "final_assets_dir base_dir \<noteq> lipsync_video_dir base_dir"
  by (simp add: final_assets_dir_def lipsync_video_dir_def final_assets_name_def
      lipsync_video_name_def)

lemma fresh_original_is_moved:
  assumes fresh: "used_name \<notin> set file_path" and fin: "finite (dom fs)"
    and orig: "fs file_path = Some (File bytes)" "bytes \<noteq> []"
    and wf: "fs (parent file_path) = Some Dir"
    and used_dir: "fs (lipsync_video_dir base_dir @ [used_name]) = Some Dir"
    and clear: "\<forall>q \<in> set (prefixes (final_assets_dir base_dir)). \<not> is_file (fs q)"
    and ok: "\<not> probe_fails flt" "\<not> mkdir_fails flt" "\<not> move_fails flt" "\<not> copy_fails flt"
  shows "\<exists>fs' lg used_path dest.
           finalize_assets base_dir flt xml fs file_path = Some (fs', lg)
           \<and> fs' file_path = None
           \<and> parent used_path = lipsync_video_dir base_dir @ [used_name]
           \<and> fs' used_path = Some (File bytes)
           \<and> parent (parent dest) = final_assets_dir base_dir
           \<and> fs' dest = Some (File bytes)"
proof -
  let ?video_name = "stem_of (name_of file_path)"
  let ?fad = "final_assets_dir base_dir"
  let ?used_dir = "lipsync_video_dir base_dir @ [used_name]"
  let ?cand1 = "\<lambda>counter. ?fad @ [?video_name @ ''('' @ str_nat counter @ '')'']"
  have "inj ?cand1" by (auto simp: inj_def dest: str_nat_inj)
  from free_path_returns[OF fin this, of "?fad @ [?video_name]" 1]
  obtain set_folder where sf: "free_path fs ?cand1 (?fad @ [?video_name]) 1 = Some set_folder"
    "fs set_folder = None"
    "set_folder = ?fad @ [?video_name] \<or> (\<exists>j\<ge>1. set_folder = ?cand1 j)" by blast
  then have sf_parent: "parent set_folder = ?fad" by (auto simp: parent_def)
  have sf_used: "set_folder \<noteq> ?used_dir"
  proof
    assume "set_folder = ?used_dir"
    then have "parent set_folder = parent ?used_dir" by simp
    then show False using sf_parent stage_folders_differ[of base_dir] by (simp add: parent_def)
  qed
  have "prefixes set_folder = prefixes ?fad @ [set_folder]"
    using sf(3) by (auto simp: prefixes_snoc)
  with clear sf(2) ok(2) obtain fs1 where mk: "mkdir_parents flt fs set_folder = Inr fs1"
    by (auto simp: mkdir_parents_def is_file_def)
  note keeps1 = mkdir_parents_keeps[OF mk]
  have fin1: "finite (dom fs1)" using mk fin by (rule mkdir_parents_finite)
  have fs1_sf: "fs1 set_folder = Some Dir" using mkdir_parents_result(1)[OF mk] by simp
  have fp1: "fs1 file_path = Some (File bytes)" using keeps1[of file_path] orig(1) by simp
  have ud1: "fs1 ?used_dir = Some Dir" using keeps1[of ?used_dir] used_dir by simp
  let ?stem = "stem_of (name_of file_path)"
  let ?suffix = "suffix_of (name_of file_path)"
  let ?cand2 = "\<lambda>counter. set_folder @ [numbered ?stem counter ?suffix]"
  have "inj ?cand2" by (auto simp: inj_def numbered_def dest: str_nat_inj)
  from free_path_returns[OF fin1 this, of "set_folder @ [name_of file_path]" 1]
  obtain dest where d: "free_path fs1 ?cand2 (set_folder @ [name_of file_path]) 1 = Some dest"
    "fs1 dest = None"
    "dest = set_folder @ [name_of file_path] \<or> (\<exists>j\<ge>1. dest = ?cand2 j)" by blast
  then have d_parent: "parent dest = set_folder" by (auto simp: parent_def)
  let ?cand3 = "\<lambda>counter. ?used_dir @ [numbered ?stem counter ?suffix]"
  have "inj ?cand3" by (auto simp: inj_def numbered_def dest: str_nat_inj)
  from free_path_returns[OF fin1 this, of "?used_dir @ [name_of file_path]" 1]
  obtain used_path where u: "free_path fs1 ?cand3 (?used_dir @ [name_of file_path]) 1
      = Some used_path" "fs1 used_path = None"
    "used_path = ?used_dir @ [name_of file_path] \<or> (\<exists>j\<ge>1. used_path = ?cand3 j)" by blast
  then have u_parent: "parent used_path = ?used_dir" by (auto simp: parent_def butlast_append)
  have du: "dest \<noteq> used_path" using d_parent u_parent sf_used by auto
  let ?fs2 = "(fs1(file_path := None))(used_path \<mapsto> File bytes)"
  have m: "move flt fs1 file_path used_path = Inr ?fs2"
    using fp1 u(2) u_parent ud1 ok(3) by (simp add: move_def Let_def)
  have sf_fp: "set_folder \<noteq> file_path" using sf(2) orig(1) by auto
  have sf_up: "set_folder \<noteq> used_path" using fs1_sf u(2) by auto
  let ?fs3 = "?fs2(dest \<mapsto> File bytes)"
  have c: "copy2 flt ?fs2 used_path dest = Inr ?fs3"
    using d(2) du d_parent fs1_sf sf_fp sf_up ok(4) by (simp add: copy2_def Let_def)
  have fin3: "finite (dom ?fs3)" using fin1 by simp
  let ?lg = "[(INFO, ''finalize started''), (INFO, ''set folder created'')] @
             [(INFO, ''original moved''), (INFO, ''video copied'')]"
  from write_metadata_result[OF fin3, of flt xml ?lg set_folder ?video_name]
  obtain fs' lg' where w: "write_metadata flt xml ?fs3 ?lg set_folder ?video_name
      = Some (fs', lg')"
    "\<forall>p. ?fs3 p \<noteq> None \<or> parent p \<noteq> set_folder \<longrightarrow> fs' p = ?fs3 p" by blast
  have fin_eq: "finalize_assets base_dir flt xml fs file_path = Some (fs', lg')"
    using orig ok(1) sf(1) mk d(1) fresh u(1) m c w(1)
    by (simp add: finalize_assets_def st_size_def Let_def)
  have "parent file_path \<noteq> set_folder" using wf sf(2) by auto
  then have "fs' file_path = ?fs3 file_path" using w(2) by blast
  moreover have "file_path \<noteq> dest" using fp1 d(2) by auto
  moreover have "file_path \<noteq> used_path" using fp1 u(2) by auto
  ultimately have gone: "fs' file_path = None" by simp
  have "fs' used_path = Some (File bytes)" using w(2) du by simp
  moreover have "fs' dest = Some (File bytes)" using w(2) by simp
  moreover have "parent (parent dest) = ?fad" using d_parent sf_parent by simp
  ultimately show ?thesis using fin_eq gone u_parent by blast
qed

text \<open>Two runs, step by step: an archived original and one that has just arrived.\<close>

lemma finalize_archived_run:
  "\<exists>fs' lg. finalize_assets [''project''] no_faults [60] archived_fs archived_path = Some (fs', lg)
     \<and> fs' [''project'', final_assets_name, ''take1'', ''take1.mp4''] = Some (File [1, 2, 3])
     \<and> fs' [''project'', final_assets_name, ''take1'', ''take1_metadata.xml''] = Some (File [60])
     \<and> fs' [''project'', final_assets_name, ''take1''] = Some Dir
     \<and> fs' archived_path = Some (File [1, 2, 3])
     \<and> map fst lg = [INFO, INFO, INFO, SUCCESS, SUCCESS]"
  by (simp add: finalize_assets_def archived_fs_def archived_path_def no_faults_def st_size_def
      free_path.simps Let_def final_assets_dir_def name_of_def stem_of_def suffix_of_def
      mkdir_parents_def is_file_def copy2_def parent_def write_metadata_def used_name_def
      lipsync_video_name_def final_assets_name_def)

lemma finalize_fresh_run:
  "\<exists>fs' lg. finalize_assets [''project''] no_faults [60] fresh_fs fresh_path = Some (fs', lg)
     \<and> fs' fresh_path = None
     \<and> fs' [''project'', lipsync_video_name, used_name, ''take1.mp4''] = Some (File [9])
     \<and> fs' [''project'', lipsync_video_name, used_name, ''take1(1).mp4''] = Some (File [1, 2, 3])
     \<and> fs' [''project'', final_assets_name, ''take1(1)'', ''take1.mp4''] = Some (File [1, 2, 3])
     \<and> fs' [''project'', final_assets_name, ''take1(1)'', ''take1_metadata.xml''] = Some (File [60])
     \<and> map fst lg = [INFO, INFO, INFO, INFO, SUCCESS, SUCCESS]"
  by (simp add: finalize_assets_def fresh_fs_def fresh_path_def no_faults_def st_size_def
      free_path.simps Let_def final_assets_dir_def lipsync_video_dir_def name_of_def stem_of_def
      suffix_of_def mkdir_parents_def is_file_def copy2_def move_def parent_def
      write_metadata_def used_name_def numbered_def str_nat.simps digit_char_def
      lipsync_video_name_def final_assets_name_def)

end
